theory Spec2Isabelle
  imports Main "HOL-Library.Word" "HOL-Library.AList"
begin

section \<open>GSFunctionMap.h: the keyed cache of generated functions\<close>

text \<open>
  The header declares two class templates. \<open>GSFunctionMap<KEY, VALUE>\<close> maps a key
  to a heap-allocated \<open>ActivePtr\<close> (the function and its statistics), remembers the
  entry of the last lookup in \<open>m_active\<close>, and leaves the generation of a function to the
  pure virtual \<open>GetDefaultFunction\<close>. \<open>GSCodeGeneratorFunctionMap<CG, KEY, VALUE>\<close>
  implements \<open>GetDefaultFunction\<close> with a code generator \<open>CG\<close> and a code buffer.

  Every operation that changes the object is modelled as a function from the object's
  state to a result and the state the code leaves behind. A C++ exception, a failed
  assertion and an integer division by zero are values of the type \<open>error\<close>; the
  state next to a result \<open>Inl e\<close> is the one the code had reached when it stopped.
  The class \<open>GSCodeGenerator\<close> of the header only forwards its arguments to Xbyak and
  has no counterpart here.
\<close>

subsection \<open>Machine types and faults\<close>

type_synonym uint64 = "64 word"

text \<open>The parameters \<open>int actual, int total, int prims\<close> of \<open>UpdateStats\<close>.\<close>

type_synonym c_int = "32 word"

text \<open>\<open>size_t\<close>: sizes in bytes, with arithmetic that wraps at \<open>2^64\<close>.\<close>

type_synonym size_t = "64 word"

datatype error = AssertionFailed | DivideByZero | GenerationFailed

text \<open>
  Modelled from the spec: the macro \<open>ASSERT\<close> is defined outside this header. The
  spec calls it a debug-time assertion that is not fatal in release builds: with
  \<open>debug\<close> a false expression stops the program, without it the expression is
  not checked at all.
\<close>

definition ASSERT :: "bool \<Rightarrow> bool \<Rightarrow> error + unit" where
  "ASSERT debug exp = (if debug \<and> \<not> exp then Inl AssertionFailed else Inr ())"

subsection \<open>GSFunctionMap\<close>

text \<open>
  \<open>struct ActivePtr\<close>. The field \<open>f\<close> is called \<open>fn\<close> and the field
  \<open>total\<close> is called \<open>total_px\<close> here; the other names are the source's.
\<close>

record 'v ActivePtr =
  frame :: uint64
  frames :: uint64
  prims :: uint64
  ticks :: uint64
  actual :: uint64
  total_px :: uint64
  fn :: 'v

text \<open>
  The object. \<open>heap\<close> holds the \<open>ActivePtr\<close> objects made by \<open>new\<close>: an
  address is an index into it, and \<open>new\<close> appends. \<open>m_map_active\<close> is the
  \<open>unordered_map\<close> from \<open>KEY\<close> to \<open>ActivePtr*\<close>, as an association list in
  insertion order (the iteration order of the C++ container is unspecified; nothing
  proved below depends on it). \<open>m_active\<close> is the pointer, \<open>None\<close> for
  \<open>NULL\<close>. \<open>derived\<close> is the state of the subclass that implements
  \<open>GetDefaultFunction\<close>.
\<close>

record ('k, 'v, 'd) GSFunctionMap =
  heap :: "'v ActivePtr list"
  m_map_active :: "('k \<times> nat) list"
  m_active :: "nat option"
  derived :: 'd

text \<open>The constructor: \<open>m_active(NULL)\<close>, an empty map.\<close>

definition GSFunctionMap_new :: "'d \<Rightarrow> ('k, 'v, 'd) GSFunctionMap" where
  "GSFunctionMap_new d = \<lparr>heap = [], m_map_active = [], m_active = None, derived = d\<rparr>"

text \<open>
  Lines 67 to 71: \<open>new ActivePtr()\<close>, \<open>memset(p, 0, sizeof(*p))\<close>,
  \<open>p->frame = (uint64)-1\<close>. \<open>VALUE\<close> is a type with an all-zero value.
\<close>

definition new_ActivePtr :: "('v::zero) ActivePtr" where
  "new_ActivePtr =
     \<lparr>frame = - 1, frames = 0, prims = 0, ticks = 0, actual = 0, total_px = 0, fn = 0\<rparr>"

text \<open>
  \<open>VALUE operator[](KEY key)\<close>. \<open>gdf\<close> is the virtual \<open>GetDefaultFunction\<close>:
  it works on the subclass state and either returns a function or throws. When it throws,
  the statements after line 73 do not run: the new object stays allocated, but is neither
  put into the map nor made active.
\<close>

definition operator_index ::
  "('k \<Rightarrow> 'd \<Rightarrow> (error + 'v) \<times> 'd) \<Rightarrow> 'k \<Rightarrow> ('k, 'v::zero, 'd) GSFunctionMap
     \<Rightarrow> (error + 'v) \<times> ('k, 'v, 'd) GSFunctionMap" where
  "operator_index gdf key s0 =
     (let s = s0\<lparr>m_active := None\<rparr> in
      case map_of (m_map_active s) key of
        Some p \<Rightarrow>
          (let s1 = s\<lparr>m_active := Some p\<rparr>
           in (Inr (fn (heap s1 ! p)), s1))
      | None \<Rightarrow>
          (let p = length (heap s);
               s1 = s\<lparr>heap := heap s @ [new_ActivePtr]\<rparr>
           in case gdf key (derived s1) of
                (Inl e, d) \<Rightarrow> (Inl e, s1\<lparr>derived := d\<rparr>)
              | (Inr v, d) \<Rightarrow>
                  (let s2 = s1\<lparr>derived := d, heap := (heap s1)[p := (heap s1 ! p)\<lparr>fn := v\<rparr>]\<rparr>;
                       s3 = s2\<lparr>m_map_active := AList.update key p (m_map_active s2)\<rparr>;
                       s4 = s3\<lparr>m_active := Some p\<rparr>
                   in (Inr (fn (heap s4 ! p)), s4))))"

text \<open>
  Lines 87 to 96 of \<open>UpdateStats\<close>, on the object \<open>m_active\<close> points to. The
  \<open>int\<close> arguments are converted to \<open>uint64\<close> by sign extension before the addition,
  and every addition wraps at \<open>2^64\<close>.
\<close>

definition UpdateStats_entry ::
  "uint64 \<Rightarrow> uint64 \<Rightarrow> c_int \<Rightarrow> c_int \<Rightarrow> c_int \<Rightarrow> 'v ActivePtr \<Rightarrow> 'v ActivePtr" where
  "UpdateStats_entry fr tk ac tot pr a =
     (let a1 = (if frame a \<noteq> fr then a\<lparr>frame := fr, frames := frames a + 1\<rparr> else a)
      in a1\<lparr>prims := prims a1 + scast pr,
            ticks := ticks a1 + tk,
            actual := actual a1 + scast ac,
            total_px := total_px a1 + scast tot\<rparr>)"

text \<open>
  \<open>void UpdateStats(uint64 frame, uint64 ticks, int actual, int total, int prims)\<close>:
  nothing happens when \<open>m_active\<close> is \<open>NULL\<close>; otherwise the object is updated and
  line 98 asserts \<open>total >= actual\<close> on the new values.
\<close>

definition UpdateStats ::
  "bool \<Rightarrow> uint64 \<Rightarrow> uint64 \<Rightarrow> c_int \<Rightarrow> c_int \<Rightarrow> c_int \<Rightarrow> ('k, 'v, 'd) GSFunctionMap
     \<Rightarrow> (error + unit) \<times> ('k, 'v, 'd) GSFunctionMap" where
  "UpdateStats debug fr tk ac tot pr s =
     (case m_active s of
        None \<Rightarrow> (Inr (), s)
      | Some p \<Rightarrow>
          (let a = UpdateStats_entry fr tk ac tot pr (heap s ! p);
               s1 = s\<lparr>heap := (heap s)[p := a]\<rparr>
           in (ASSERT debug (total_px a \<ge> actual a), s1)))"

text \<open>
  A sequence of \<open>UpdateStats\<close> calls with no lookup in between, each call given as
  \<open>(frame, ticks, actual, total, prims)\<close>. It ends at the first failed assertion.
\<close>

type_synonym stats_call = "uint64 \<times> uint64 \<times> c_int \<times> c_int \<times> c_int"

fun UpdateStats_calls ::
  "bool \<Rightarrow> stats_call list \<Rightarrow> ('k, 'v, 'd) GSFunctionMap
     \<Rightarrow> (error + unit) \<times> ('k, 'v, 'd) GSFunctionMap" where
  "UpdateStats_calls debug [] s = (Inr (), s)"
| "UpdateStats_calls debug ((fr, tk, ac, tot, pr) # cs) s =
     (case UpdateStats debug fr tk ac tot pr s of
        (Inl e, s1) \<Rightarrow> (Inl e, s1)
      | (Inr u, s1) \<Rightarrow> UpdateStats_calls debug cs s1)"

text \<open>The arguments of one call, by name.\<close>

fun call_frame :: "stats_call \<Rightarrow> uint64" where
  "call_frame (fr, tk, ac, tot, pr) = fr"

fun call_ticks :: "stats_call \<Rightarrow> uint64" where
  "call_ticks (fr, tk, ac, tot, pr) = tk"

fun call_actual :: "stats_call \<Rightarrow> c_int" where
  "call_actual (fr, tk, ac, tot, pr) = ac"

fun call_total :: "stats_call \<Rightarrow> c_int" where
  "call_total (fr, tk, ac, tot, pr) = tot"

text \<open>What a sequence of calls does to the one object they are all routed to.\<close>

fun UpdateStats_entries :: "stats_call list \<Rightarrow> 'v ActivePtr \<Rightarrow> 'v ActivePtr" where
  "UpdateStats_entries [] a = a"
| "UpdateStats_entries ((fr, tk, ac, tot, pr) # cs) a =
     UpdateStats_entries cs (UpdateStats_entry fr tk ac tot pr a)"

text \<open>
  The pointers of the object point to allocated \<open>ActivePtr\<close> objects. The constructor
  establishes this and every operation keeps it (\<open>pointers_valid_new\<close>,
  \<open>pointers_valid_operator_index\<close>, \<open>pointers_valid_UpdateStats\<close> below).
\<close>

definition pointers_valid :: "('k, 'v, 'd) GSFunctionMap \<Rightarrow> bool" where
  "pointers_valid s \<longleftrightarrow>
     (\<forall>p \<in> snd ` set (m_map_active s). p < length (heap s))
     \<and> (\<forall>p \<in> set_option (m_active s). p < length (heap s))"

text \<open>
  The spec's words for \<open>period_count\<close>: it is updated when the epoch of a call differs
  from the last epoch seen, once per such call. \<open>epoch_changes e0 es\<close> counts the
  epochs of \<open>es\<close> that differ from the one before, \<open>e0\<close> being the one before
  the first.
\<close>

fun epoch_changes :: "uint64 \<Rightarrow> uint64 list \<Rightarrow> nat" where
  "epoch_changes e0 [] = 0"
| "epoch_changes e0 (e # es) = (if e \<noteq> e0 then 1 else 0) + epoch_changes e es"

text \<open>
  What a caller does with the object between two reports: lookups and \<open>UpdateStats\<close>
  calls, in any order. A lookup whose generation throws leaves the object to a caller that
  catches the exception; a failed assertion ends the program.
\<close>

datatype 'k operation = Op_Lookup 'k | Op_UpdateStats stats_call

fun run_operations ::
  "('k \<Rightarrow> 'd \<Rightarrow> (error + 'v) \<times> 'd) \<Rightarrow> bool \<Rightarrow> 'k operation list
     \<Rightarrow> ('k, 'v::zero, 'd) GSFunctionMap \<Rightarrow> error + ('k, 'v, 'd) GSFunctionMap" where
  "run_operations gdf debug [] s = Inr s"
| "run_operations gdf debug (Op_Lookup k # ops) s =
     run_operations gdf debug ops (snd (operator_index gdf k s))"
| "run_operations gdf debug (Op_UpdateStats (fr, tk, ac, tot, pr) # ops) s =
     (case UpdateStats debug fr tk ac tot pr s of
        (Inl e, s1) \<Rightarrow> Inl e
      | (Inr u, s1) \<Rightarrow> run_operations gdf debug ops s1)"

text \<open>An \<open>UpdateStats\<close> call on \<open>s\<close> is routed to the entry of \<open>key\<close>.\<close>

definition routed_to :: "('k, 'v, 'd) GSFunctionMap \<Rightarrow> 'k \<Rightarrow> bool" where
  "routed_to s key \<longleftrightarrow> m_active s \<noteq> None \<and> m_active s = map_of (m_map_active s) key"

text \<open>
  Along the run of \<open>ops\<close> from \<open>s\<close>, every \<open>UpdateStats\<close> call routed to the entry
  of \<open>key\<close> has the frame \<open>fr0\<close>.
\<close>

fun routed_frames_all ::
  "('k \<Rightarrow> 'd \<Rightarrow> (error + 'v) \<times> 'd) \<Rightarrow> bool \<Rightarrow> 'k \<Rightarrow> uint64 \<Rightarrow> 'k operation list
     \<Rightarrow> ('k, 'v::zero, 'd) GSFunctionMap \<Rightarrow> bool" where
  "routed_frames_all gdf debug key fr0 [] s = True"
| "routed_frames_all gdf debug key fr0 (Op_Lookup k # ops) s =
     routed_frames_all gdf debug key fr0 ops (snd (operator_index gdf k s))"
| "routed_frames_all gdf debug key fr0 (Op_UpdateStats (fr, tk, ac, tot, pr) # ops) s =
     ((if routed_to s key then fr = fr0 else True)
      \<and> routed_frames_all gdf debug key fr0 ops (snd (UpdateStats debug fr tk ac tot pr s)))"

subsection \<open>PrintStats\<close>

text \<open>
  The first loop of \<open>PrintStats\<close> (lines 106 to 114): \<open>ttpf\<close> is the sum of
  \<open>ticks / frames\<close> over the entries with \<open>frames \<noteq> 0\<close>.
\<close>

fun ttpf_loop :: "uint64 \<Rightarrow> ('k \<times> 'v ActivePtr) list \<Rightarrow> uint64" where
  "ttpf_loop ttpf [] = ttpf"
| "ttpf_loop ttpf ((key, p) # es) =
     ttpf_loop (if frames p \<noteq> 0 then ttpf + ticks p div frames p else ttpf) es"

text \<open>
  One line of the table: the integer arguments of the \<open>printf\<close> of line 136, in
  order. The two percentages are kept as the integers the code computes before it
  converts them to \<open>float\<close> and divides by 100; the key is kept as it is (the code
  prints it cast to \<open>uint64\<close>).
\<close>

record 'k stats_row =
  row_key :: 'k
  row_frames :: uint64
  row_prims_per_frame :: uint64
  row_pct_x100 :: uint64
  row_us_per_frame :: uint64
  row_ns_per_px :: uint64
  row_px_per_frame :: uint64
  row_px_per_prim :: uint64
  row_overdraw_x100 :: uint64

text \<open>
  Lines 132 to 145, for an entry that passed the test of line 130 (so \<open>frames\<close>,
  \<open>actual\<close> and \<open>ttpf\<close> are not zero). The arguments divide by \<open>tps\<close>, by
  \<open>p->prims\<close> and by \<open>p->total\<close> with no test; an integer division by zero stops
  the program. \<open>tps\<close> is the value of \<open>GetTickFrequency()\<close>.
\<close>

definition stats_row_of :: "uint64 \<Rightarrow> uint64 \<Rightarrow> 'k \<Rightarrow> 'v ActivePtr \<Rightarrow> error + 'k stats_row" where
  "stats_row_of tps ttpf key p =
     (let million = 1000 * 1000;
          billion = 1000 * million;
          tpp = ticks p div actual p;
          tpf = ticks p div frames p;
          ppf = actual p div frames p
      in if tps = 0 \<or> prims p = 0 \<or> total_px p = 0 then Inl DivideByZero
         else Inr \<lparr>row_key = key,
                   row_frames = frames p,
                   row_prims_per_frame = prims p div frames p,
                   row_pct_x100 = tpf * 10000 div ttpf,
                   row_us_per_frame = (tpf * million) div tps,
                   row_ns_per_px = (tpp * billion) div tps,
                   row_px_per_frame = ppf,
                   row_px_per_prim = actual p div prims p,
                   row_overdraw_x100 = (total_px p - actual p) * 10000 div total_px p\<rparr>)"

text \<open>
  The second loop (lines 125 to 147): the lines printed, and the fault that ended the
  loop if there was one.
\<close>

fun print_rows ::
  "uint64 \<Rightarrow> uint64 \<Rightarrow> ('k \<times> 'v ActivePtr) list \<Rightarrow> 'k stats_row list \<times> error option" where
  "print_rows tps ttpf [] = ([], None)"
| "print_rows tps ttpf ((key, p) # es) =
     (if frames p \<noteq> 0 \<and> actual p \<noteq> 0 \<and> ttpf \<noteq> 0
      then (case stats_row_of tps ttpf key p of
              Inl e \<Rightarrow> ([], Some e)
            | Inr r \<Rightarrow> (case print_rows tps ttpf es of (rs, e) \<Rightarrow> (r # rs, e)))
      else print_rows tps ttpf es)"

text \<open>\<open>virtual void PrintStats()\<close>. It reads the object and changes nothing.\<close>

definition PrintStats ::
  "uint64 \<Rightarrow> ('k, 'v, 'd) GSFunctionMap \<Rightarrow> 'k stats_row list \<times> error option" where
  "PrintStats tps s =
     (let es = map (\<lambda>(key, p). (key, heap s ! p)) (m_map_active s);
          ttpf = ttpf_loop 0 es
      in print_rows tps ttpf es)"

subsection \<open>GSCodeGeneratorFunctionMap\<close>

text \<open>\<open>enum { MAX_SIZE = 8192 }\<close>; every use converts it to \<open>size_t\<close>.\<close>

definition MAX_SIZE :: size_t where
  "MAX_SIZE = 8192"

text \<open>
  What the class needs of a constructed code generator \<open>CG\<close>: the bytes it emitted
  into the region (\<open>getSize()\<close> is their number, a \<open>size_t\<close>) and the entry
  point \<open>getCode()\<close>. A function is identified by its address.
\<close>

record code_generator =
  cg_bytes :: "8 word list"
  cg_code :: nat

definition getSize :: "code_generator \<Rightarrow> size_t" where
  "getSize cg = of_nat (length (cg_bytes cg))"

definition getCode :: "code_generator \<Rightarrow> nat" where
  "getCode cg = cg_code cg"

text \<open>
  The collaborators the header uses and does not define: whether \<open>ASSERT\<close> is compiled
  in, the constructor \<open>CG(param, key, code_ptr, maxsize)\<close> (which may throw), the code
  buffer's \<open>GetBuffer\<close> and \<open>ReleaseBuffer\<close>, and the conversion of \<open>KEY\<close> to the
  \<open>uint64\<close> key of \<open>m_cgmap\<close>.
\<close>

record ('k, 'p, 'cb) collaborators =
  debug_build :: bool
  CG_new :: "'p \<Rightarrow> 'k \<Rightarrow> nat \<Rightarrow> size_t \<Rightarrow> error + code_generator"
  GetBuffer :: "size_t \<Rightarrow> 'cb \<Rightarrow> nat \<times> 'cb"
  ReleaseBuffer :: "size_t \<Rightarrow> 'cb \<Rightarrow> 'cb"
  key_uint64 :: "'k \<Rightarrow> uint64"

text \<open>
  The members of the subclass. \<open>m_total_code_size\<close> is a \<open>size_t\<close>: the addition
  of line 212 wraps.
\<close>

record ('p, 'cb) GSCodeGeneratorFunctionMap =
  m_name :: string
  m_param :: 'p
  m_cgmap :: "uint64 \<rightharpoonup> nat"
  m_cb :: 'cb
  m_total_code_size :: size_t

text \<open>The constructor, given the default-constructed code buffer.\<close>

definition GSCodeGeneratorFunctionMap_new ::
  "string \<Rightarrow> 'p \<Rightarrow> 'cb \<Rightarrow> ('k, nat, ('p, 'cb) GSCodeGeneratorFunctionMap) GSFunctionMap" where
  "GSCodeGeneratorFunctionMap_new name param cb =
     GSFunctionMap_new
       \<lparr>m_name = name, m_param = param, m_cgmap = Map.empty, m_cb = cb, m_total_code_size = 0\<rparr>"

text \<open>
  \<open>VALUE GetDefaultFunction(KEY key)\<close>, lines 189 to 264 (the \<open>#if 0\<close> and
  \<open>ENABLE_VTUNE\<close> blocks left out).
\<close>

definition GetDefaultFunction ::
  "('k, 'p, 'cb) collaborators \<Rightarrow> 'k \<Rightarrow> ('p, 'cb) GSCodeGeneratorFunctionMap
     \<Rightarrow> (error + nat) \<times> ('p, 'cb) GSCodeGeneratorFunctionMap" where
  "GetDefaultFunction env key m =
     (case m_cgmap m (key_uint64 env key) of
        Some v \<Rightarrow> (Inr v, m)
      | None \<Rightarrow>
          (case GetBuffer env MAX_SIZE (m_cb m) of
             (code_ptr, cb1) \<Rightarrow>
               (let m1 = m\<lparr>m_cb := cb1\<rparr> in
                case CG_new env (m_param m1) key code_ptr MAX_SIZE of
                  Inl e \<Rightarrow> (Inl e, m1)
                | Inr cg \<Rightarrow>
                    (case ASSERT (debug_build env) (getSize cg < MAX_SIZE) of
                       Inl e \<Rightarrow> (Inl e, m1)
                     | Inr u \<Rightarrow>
                         (let m2 = m1\<lparr>m_total_code_size := m_total_code_size m1 + getSize cg\<rparr>;
                              m3 = m2\<lparr>m_cb := ReleaseBuffer env (getSize cg) (m_cb m2)\<rparr>;
                              ret = getCode cg;
                              m4 = m3\<lparr>m_cgmap := (m_cgmap m3)(key_uint64 env key \<mapsto> ret)\<rparr>
                          in (Inr ret, m4))))))"

text \<open>\<open>operator[]\<close> of the subclass: the inherited one, with its own generation.\<close>

definition Lookup ::
  "('k, 'p, 'cb) collaborators \<Rightarrow> 'k \<Rightarrow> ('k, nat, ('p, 'cb) GSCodeGeneratorFunctionMap) GSFunctionMap
     \<Rightarrow> (error + nat) \<times> ('k, nat, ('p, 'cb) GSCodeGeneratorFunctionMap) GSFunctionMap" where
  "Lookup env key s = operator_index (GetDefaultFunction env) key s"

subsection \<open>A code buffer and a code generator to run the class with\<close>

text \<open>
  Modelled from the spec: \<open>GSCodeBuffer\<close> (GS/GSCodeBuffer.h) is not part of the
  header. The spec describes it as an append-only arena: \<open>Reserve(max_size)\<close> returns
  a pointer to the next free bytes, \<open>Commit(actual_size)\<close> trims the reservation to
  the bytes used, so the next region starts right after them.
\<close>

record arena =
  arena_pos :: nat
  arena_reserved :: size_t

definition arena_GetBuffer :: "size_t \<Rightarrow> arena \<Rightarrow> nat \<times> arena" where
  "arena_GetBuffer n a = (arena_pos a, a\<lparr>arena_reserved := n\<rparr>)"

definition arena_ReleaseBuffer :: "size_t \<Rightarrow> arena \<Rightarrow> arena" where
  "arena_ReleaseBuffer n a = a\<lparr>arena_pos := arena_pos a + unat n, arena_reserved := 0\<rparr>"

text \<open>
  A generator that emits the same \<open>n\<close> bytes for every key, with the start of the
  region as entry point; and one that always throws.
\<close>

definition stub_CG :: "nat \<Rightarrow> unit \<Rightarrow> uint64 \<Rightarrow> nat \<Rightarrow> size_t \<Rightarrow> error + code_generator" where
  "stub_CG n param key code_ptr maxsize = Inr \<lparr>cg_bytes = replicate n 0x90, cg_code = code_ptr\<rparr>"

definition throwing_CG :: "unit \<Rightarrow> uint64 \<Rightarrow> nat \<Rightarrow> size_t \<Rightarrow> error + code_generator" where
  "throwing_CG param key code_ptr maxsize = Inl GenerationFailed"

definition stub_env :: "bool \<Rightarrow> nat \<Rightarrow> (uint64, unit, arena) collaborators" where
  "stub_env debug n =
     \<lparr>debug_build = debug, CG_new = stub_CG n, GetBuffer = arena_GetBuffer,
      ReleaseBuffer = arena_ReleaseBuffer, key_uint64 = (\<lambda>k. k)\<rparr>"

definition stub_map :: "(uint64, nat, (unit, arena) GSCodeGeneratorFunctionMap) GSFunctionMap" where
  "stub_map =
     GSCodeGeneratorFunctionMap_new ''stub'' () \<lparr>arena_pos = 4096, arena_reserved = 0\<rparr>"

section \<open>Properties\<close>

subsection \<open>Facts about words and lists\<close>

lemma unat_plus_exact:
  "unat (a :: 64 word) + unat b < 2 ^ 64 \<Longrightarrow> unat (a + b) = unat a + unat b"
  by (rule unat_add_lem [THEN iffD1]) simp

lemma unat_succ_le: "unat ((a :: 64 word) + 1) \<le> unat a + 1"
  by (simp add: unat_word_ariths)

text \<open>A non-negative \<open>int\<close> keeps its value when it is converted to \<open>uint64\<close>.\<close>

lemma unat_scast_nonneg:
  assumes "0 \<le> sint (x :: 32 word)"
  shows "unat (scast x :: 64 word) = nat (sint x)"
proof -
  have up: "sint (scast x :: 64 word) = sint x"
    by (simp add: sint_up_scast is_up)
  have lt: "sint x < 2 ^ 31"
    using sint_lt [of x] by simp
  have "uint (scast x :: 64 word) = take_bit 64 (sint x)"
    using uint_sint [of "scast x :: 64 word"] up by simp
  also have "\<dots> = sint x"
    using assms lt by (simp add: take_bit_int_eq_self)
  finally show ?thesis
    by (simp add: unat_eq_nat_uint)
qed

lemma update_absent: "map_of al k = None \<Longrightarrow> AList.update k v al = al @ [(k, v)]"
  by (induction al) auto

lemmas stub_defs =
  Lookup_def GetDefaultFunction_def stub_env_def stub_map_def throwing_CG_def
  GSCodeGeneratorFunctionMap_new_def GSFunctionMap_new_def arena_GetBuffer_def
  arena_ReleaseBuffer_def stub_CG_def ASSERT_def getSize_def getCode_def MAX_SIZE_def
  new_ActivePtr_def operator_index_def UpdateStats_def UpdateStats_entry_def

subsection \<open>The three ways through \<open>operator[]\<close>\<close>

lemma operator_index_hit:
  assumes "map_of (m_map_active s) key = Some p"
  shows "operator_index gdf key s = (Inr (fn (heap s ! p)), s\<lparr>m_active := Some p\<rparr>)"
  using assms by (simp add: operator_index_def)

lemma operator_index_throw:
  assumes "map_of (m_map_active s) key = None" and "gdf key (derived s) = (Inl e, d)"
  shows "operator_index gdf key s =
           (Inl e, s\<lparr>heap := heap s @ [new_ActivePtr], m_active := None, derived := d\<rparr>)"
  using assms by (simp add: operator_index_def)

lemma operator_index_new:
  assumes "map_of (m_map_active s) key = None" and "gdf key (derived s) = (Inr v, d)"
  shows "operator_index gdf key s =
           (Inr v, s\<lparr>heap := heap s @ [new_ActivePtr\<lparr>fn := v\<rparr>],
                     m_map_active := m_map_active s @ [(key, length (heap s))],
                     m_active := Some (length (heap s)),
                     derived := d\<rparr>)"
  using assms by (simp add: operator_index_def update_absent Let_def)

subsection \<open>Claims about \<open>operator[]\<close>\<close>

text \<open>
  C3. When a lookup of a key returns a function, the next lookup of the same key
  returns the same function and leaves the whole object as it is, whatever
  \<open>GetDefaultFunction\<close> would do if it were called (\<open>gdf'\<close> is arbitrary: the
  second lookup does not call it). After either lookup \<open>m_active\<close> is the entry the
  map holds for the key, and that entry holds the function returned.
\<close>

theorem lookup_twice_same_function:
  assumes "operator_index gdf key s = (Inr v, s1)"
  shows "operator_index gdf' key s1 = (Inr v, s1)
         \<and> m_active s1 = map_of (m_map_active s1) key
         \<and> (\<exists>p. m_active s1 = Some p \<and> fn (heap s1 ! p) = v)"
proof (cases "map_of (m_map_active s) key")
  case None
  obtain r d where g: "gdf key (derived s) = (r, d)"
    by (cases "gdf key (derived s)")
  show ?thesis
  proof (cases r)
    case (Inl e)
    with None g assms show ?thesis
      by (simp add: operator_index_throw)
  next
    case (Inr w)
    with None g have "operator_index gdf key s =
           (Inr w, s\<lparr>heap := heap s @ [new_ActivePtr\<lparr>fn := w\<rparr>],
                     m_map_active := m_map_active s @ [(key, length (heap s))],
                     m_active := Some (length (heap s)),
                     derived := d\<rparr>)"
      by (simp add: operator_index_new)
    with assms have s1: "s1 = s\<lparr>heap := heap s @ [new_ActivePtr\<lparr>fn := v\<rparr>],
                     m_map_active := m_map_active s @ [(key, length (heap s))],
                     m_active := Some (length (heap s)),
                     derived := d\<rparr>"
      by auto
    have m: "map_of (m_map_active s1) key = Some (length (heap s))"
      using None by (simp add: s1 map_add_def)
    have "operator_index gdf' key s1 = (Inr v, s1)"
      using operator_index_hit [OF m, of gdf'] by (simp add: s1)
    then show ?thesis
      using m by (simp add: s1)
  qed
next
  case (Some p)
  with assms have s1: "s1 = s\<lparr>m_active := Some p\<rparr>" and v: "fn (heap s ! p) = v"
    using operator_index_hit [OF Some, of gdf] by auto
  have m: "map_of (m_map_active s1) key = Some p"
    using Some by (simp add: s1)
  show ?thesis
    using operator_index_hit [OF m, of gdf'] v m by (simp add: s1)
qed

text \<open>
  The first lookup of key 1 generates 16 bytes at 4096. The second lookup is given
  a generator that always throws, and still returns 4096.
\<close>

theorem lookup_twice_same_function_witness:
  "fst (Lookup (stub_env True 16) 1 stub_map) = Inr 4096
   \<and> operator_index (\<lambda>k d. (Inl GenerationFailed, d)) 1 (snd (Lookup (stub_env True 16) 1 stub_map))
       = (Inr 4096, snd (Lookup (stub_env True 16) 1 stub_map))
   \<and> m_active (snd (Lookup (stub_env True 16) 1 stub_map)) = Some 0"
proof -
  define s1 where "s1 = snd (Lookup (stub_env True 16) 1 stub_map)"
  have h: "operator_index (GetDefaultFunction (stub_env True 16)) 1 stub_map = (Inr 4096, s1)"
    by (simp add: s1_def stub_defs)
  have r: "fst (Lookup (stub_env True 16) 1 stub_map) = Inr 4096"
    by (simp add: stub_defs)
  have a: "m_active s1 = Some 0"
    by (simp add: s1_def stub_defs)
  have "operator_index (\<lambda>k d. (Inl GenerationFailed, d)) 1 s1 = (Inr 4096, s1)"
    using lookup_twice_same_function [OF h, of "\<lambda>k d. (Inl GenerationFailed, d)"] by blast
  with r a show ?thesis
    unfolding s1_def by blast
qed

text \<open>
  C7. A lookup of a key that is not in the map, whose generation throws: the fault is
  the lookup's result, the map is what it was (so the key is still absent),
  \<open>m_active\<close> is \<open>NULL\<close>, and the objects allocated before are untouched. The next
  lookup of the key therefore generates again: its result is the result of its own
  generation, never a function read from a left-over entry.
\<close>

theorem failed_generation_installs_no_entry:
  assumes "map_of (m_map_active s) key = None" and "gdf key (derived s) = (Inl e, d)"
  shows "fst (operator_index gdf key s) = Inl e
         \<and> m_map_active (snd (operator_index gdf key s)) = m_map_active s
         \<and> map_of (m_map_active (snd (operator_index gdf key s))) key = None
         \<and> m_active (snd (operator_index gdf key s)) = None
         \<and> take (length (heap s)) (heap (snd (operator_index gdf key s))) = heap s
         \<and> fst (operator_index gdf' key (snd (operator_index gdf key s))) = fst (gdf' key d)"
proof -
  let ?s1 = "s\<lparr>heap := heap s @ [new_ActivePtr], m_active := None, derived := d\<rparr>"
  have s1: "operator_index gdf key s = (Inl e, ?s1)"
    using assms by (rule operator_index_throw)
  have absent: "map_of (m_map_active ?s1) key = None"
    using assms(1) by simp
  have again: "fst (operator_index gdf' key ?s1) = fst (gdf' key d)"
  proof (cases "gdf' key d")
    case (Pair r d')
    then show ?thesis
    proof (cases r)
      case (Inl e')
      with Pair absent show ?thesis
        by (simp add: operator_index_throw)
    next
      case (Inr w)
      with Pair absent show ?thesis
        by (simp add: operator_index_new)
    qed
  qed
  show ?thesis
    using assms(1) again by (simp add: s1)
qed

text \<open>
  The generator throws for key 1 on the new object: the map stays empty. A later
  lookup with a working generator returns the function generated then.
\<close>

theorem failed_generation_installs_no_entry_witness:
  "fst (Lookup ((stub_env True 16)\<lparr>CG_new := throwing_CG\<rparr>) 1 stub_map) = Inl GenerationFailed
   \<and> m_map_active (snd (Lookup ((stub_env True 16)\<lparr>CG_new := throwing_CG\<rparr>) 1 stub_map)) = []
   \<and> fst (Lookup (stub_env True 16) 1
            (snd (Lookup ((stub_env True 16)\<lparr>CG_new := throwing_CG\<rparr>) 1 stub_map))) = Inr 4096"
proof -
  let ?bad = "GetDefaultFunction ((stub_env True 16)\<lparr>CG_new := throwing_CG\<rparr>)"
  let ?d = "(derived stub_map)\<lparr>m_cb := \<lparr>arena_pos = 4096, arena_reserved = 8192\<rparr>\<rparr>"
  have absent: "map_of (m_map_active stub_map) (1 :: uint64) = None"
    by (simp add: stub_defs)
  have throws: "?bad 1 (derived stub_map) = (Inl GenerationFailed, ?d)"
    by (simp add: stub_defs)
  have good: "fst (GetDefaultFunction (stub_env True 16) 1 ?d) = Inr 4096"
    by (simp add: stub_defs)
  show ?thesis
    using failed_generation_installs_no_entry
            [of stub_map 1 ?bad GenerationFailed ?d "GetDefaultFunction (stub_env True 16)",
             OF absent throws] good
    by (simp add: Lookup_def) (simp add: stub_defs)
qed

subsection \<open>Claims about \<open>UpdateStats\<close>\<close>

text \<open>
  C8. On an object that has only been constructed, \<open>UpdateStats\<close> returns normally and
  the object is exactly what it was: no entry exists before or after, for any arguments,
  with or without assertions.
\<close>

theorem UpdateStats_before_any_lookup:
  "UpdateStats debug fr tk ac tot pr (GSFunctionMap_new d) = (Inr (), GSFunctionMap_new d)
   \<and> heap (GSFunctionMap_new d :: ('k, 'v, 'd) GSFunctionMap) = []
   \<and> m_map_active (GSFunctionMap_new d :: ('k, 'v, 'd) GSFunctionMap) = []"
  by (simp add: UpdateStats_def GSFunctionMap_new_def)

text \<open>
  C4. A key that is not in the map is looked up, which makes a fresh entry for it;
  then \<open>UpdateStats(1, 1000, 10, 12, 10)\<close> and \<open>UpdateStats(1, 500, 5, 5, 5)\<close>.
  Both calls return normally (also with assertions on), and the entry then has
  \<open>frames = 1\<close>, \<open>ticks = 1500\<close>, \<open>actual = 15\<close> and \<open>total = 17\<close>.
\<close>

theorem two_calls_in_one_frame:
  assumes "map_of (m_map_active s) key = None" and "gdf key (derived s) = (Inr v, d)"
      and "s1 = snd (operator_index gdf key s)"
      and "s3 = snd (UpdateStats_calls debug [(1, 1000, 10, 12, 10), (1, 500, 5, 5, 5)] s1)"
      and "a = heap s3 ! length (heap s)"
  shows "fst (UpdateStats_calls debug [(1, 1000, 10, 12, 10), (1, 500, 5, 5, 5)] s1) = Inr ()
         \<and> map_of (m_map_active s3) key = Some (length (heap s))
         \<and> frames a = 1 \<and> ticks a = 1500 \<and> actual a = 15 \<and> total_px a = 17
         \<and> frame a = 1 \<and> prims a = 15 \<and> fn a = v"
proof -
  have s1: "s1 = s\<lparr>heap := heap s @ [new_ActivePtr\<lparr>fn := v\<rparr>],
                    m_map_active := m_map_active s @ [(key, length (heap s))],
                    m_active := Some (length (heap s)),
                    derived := d\<rparr>"
    using assms(1,2,3) by (simp add: operator_index_new)
  have le: "(15 :: uint64) \<le> 17" "(10 :: uint64) \<le> 12"
    by simp_all
  have run: "UpdateStats_calls debug [(1, 1000, 10, 12, 10), (1, 500, 5, 5, 5)] s1 =
          (Inr (), s1\<lparr>heap := heap s @ [\<lparr>frame = 1, frames = 1, prims = 15, ticks = 1500,
                                          actual = 15, total_px = 17, fn = v\<rparr>]\<rparr>)"
    using le by (simp add: s1 UpdateStats_def UpdateStats_entry_def new_ActivePtr_def ASSERT_def)
  have m: "map_of (m_map_active s1) key = Some (length (heap s))"
    using assms(1) by (simp add: s1 map_add_def)
  have r: "fst (UpdateStats_calls debug [(1, 1000, 10, 12, 10), (1, 500, 5, 5, 5)] s1) = Inr ()"
    by (simp only: run fst_conv)
  have s3: "s3 = s1\<lparr>heap := heap s @ [\<lparr>frame = 1, frames = 1, prims = 15, ticks = 1500,
                                          actual = 15, total_px = 17, fn = v\<rparr>]\<rparr>"
    by (simp only: assms(4) run snd_conv)
  show ?thesis
    using r m by (simp add: assms(5) s3 del: UpdateStats_calls.simps)
qed

text \<open>
  Key 1 on the new object, with assertions on; the report of the resulting object
  (at 1000000 ticks per second) has one line, with 15 pixels per frame and an overdraw
  of 1176 hundredths of a percent.
\<close>

theorem two_calls_in_one_frame_witness:
  "fst (UpdateStats_calls True [(1, 1000, 10, 12, 10), (1, 500, 5, 5, 5)]
          (snd (Lookup (stub_env True 16) 1 stub_map))) = Inr ()
   \<and> heap (snd (UpdateStats_calls True [(1, 1000, 10, 12, 10), (1, 500, 5, 5, 5)]
                 (snd (Lookup (stub_env True 16) 1 stub_map)))) ! 0
       = \<lparr>frame = 1, frames = 1, prims = 15, ticks = 1500, actual = 15, total_px = 17, fn = 4096\<rparr>
   \<and> PrintStats 1000000 (snd (UpdateStats_calls True [(1, 1000, 10, 12, 10), (1, 500, 5, 5, 5)]
                 (snd (Lookup (stub_env True 16) 1 stub_map))))
       = ([\<lparr>row_key = 1, row_frames = 1, row_prims_per_frame = 15, row_pct_x100 = 10000,
            row_us_per_frame = 1500, row_ns_per_px = 100000, row_px_per_frame = 15,
            row_px_per_prim = 1, row_overdraw_x100 = 1176\<rparr>], None)"
proof -
  define s1 where "s1 = snd (Lookup (stub_env True 16) 1 stub_map)"
  define s3 where "s3 = snd (UpdateStats_calls True [(1, 1000, 10, 12, 10), (1, 500, 5, 5, 5)] s1)"
  have absent: "map_of (m_map_active stub_map) (1 :: uint64) = None"
    by (simp add: stub_defs)
  have gen: "GetDefaultFunction (stub_env True 16) 1 (derived stub_map) =
               (Inr 4096, snd (GetDefaultFunction (stub_env True 16) 1 (derived stub_map)))"
    by (simp add: stub_defs)
  have s1': "s1 = snd (operator_index (GetDefaultFunction (stub_env True 16)) 1 stub_map)"
    by (simp add: s1_def Lookup_def)
  have len: "length (heap stub_map) = 0"
    by (simp add: stub_defs)
  note t = two_calls_in_one_frame
             [of stub_map 1 "GetDefaultFunction (stub_env True 16)" 4096
                 "snd (GetDefaultFunction (stub_env True 16) 1 (derived stub_map))"
                 s1 s3 True "heap s3 ! length (heap stub_map)",
              OF absent gen s1' s3_def refl]
  have ok: "fst (UpdateStats_calls True [(1, 1000, 10, 12, 10), (1, 500, 5, 5, 5)] s1) = Inr ()"
    using t by blast
  have s3h: "heap s3 = [\<lparr>frame = 1, frames = 1, prims = 15, ticks = 1500, actual = 15,
                          total_px = 17, fn = 4096\<rparr>]"
    by (simp add: s3_def s1_def stub_defs)
  have flds: "frames (heap s3 ! 0) = 1 \<and> ticks (heap s3 ! 0) = 1500
                \<and> actual (heap s3 ! 0) = 15 \<and> total_px (heap s3 ! 0) = 17"
    using t len by simp
  have s3m: "m_map_active s3 = [(1, 0)]"
    by (simp add: s3_def s1_def stub_defs)
  have rep: "PrintStats 1000000 s3
       = ([\<lparr>row_key = 1, row_frames = 1, row_prims_per_frame = 15, row_pct_x100 = 10000,
            row_us_per_frame = 1500, row_ns_per_px = 100000, row_px_per_frame = 15,
            row_px_per_prim = 1, row_overdraw_x100 = 1176\<rparr>], None)"
    by (simp add: PrintStats_def s3h s3m stats_row_of_def)
  show ?thesis
    using ok flds rep s3h unfolding s3_def s1_def by simp
qed

subsection \<open>Claims about \<open>PrintStats\<close>\<close>

lemma stats_row_of_Inl: "stats_row_of tps ttpf key p = Inl e \<Longrightarrow> e = DivideByZero"
  by (simp add: stats_row_of_def Let_def split: if_splits)

lemma stats_row_of_no_prims: "prims p = 0 \<Longrightarrow> stats_row_of tps ttpf key p = Inl DivideByZero"
  by (simp add: stats_row_of_def Let_def)

lemma stats_row_of_key: "stats_row_of tps ttpf key p = Inr r \<Longrightarrow> row_key r = key"
  by (auto simp: stats_row_of_def Let_def split: if_splits)

text \<open>An entry that passes the test of line 130 with \<open>prims = 0\<close> ends the report.\<close>

lemma print_rows_no_prims:
  assumes "(key, p) \<in> set es" and "frames p \<noteq> 0" and "actual p \<noteq> 0" and "prims p = 0"
      and "ttpf \<noteq> 0"
  shows "snd (print_rows tps ttpf es) = Some DivideByZero"
  using assms(1)
proof (induction es)
  case Nil
  then show ?case by simp
next
  case (Cons x es)
  obtain k' p' where x: "x = (k', p')"
    by (cases x)
  show ?case
  proof (cases "x = (key, p)")
    case True
    then show ?thesis
      using assms(2-5) by (simp add: stats_row_of_no_prims)
  next
    case False
    with Cons have ih: "snd (print_rows tps ttpf es) = Some DivideByZero"
      by simp
    show ?thesis
    proof (cases "stats_row_of tps ttpf k' p'")
      case (Inl e)
      then show ?thesis
        using ih stats_row_of_Inl [OF Inl] by (simp add: x)
    next
      case (Inr r)
      then show ?thesis
        using ih by (auto simp: x split: prod.splits)
    qed
  qed
qed

text \<open>Every line of the report belongs to an entry with \<open>frames \<noteq> 0\<close>.\<close>

lemma print_rows_frames:
  assumes "r \<in> set (fst (print_rows tps ttpf es))"
  shows "\<exists>p. (row_key r, p) \<in> set es \<and> frames p \<noteq> 0"
  using assms
proof (induction es)
  case Nil
  then show ?case by simp
next
  case (Cons x es)
  obtain k' p' where x: "x = (k', p')"
    by (cases x)
  show ?case
  proof (cases "frames p' \<noteq> 0 \<and> actual p' \<noteq> 0 \<and> ttpf \<noteq> 0")
    case False
    with Cons x show ?thesis
      by auto
  next
    case True
    show ?thesis
    proof (cases "stats_row_of tps ttpf k' p'")
      case (Inl e)
      with Cons.prems True x show ?thesis
        by simp
    next
      case (Inr r')
      with Cons.prems True x have "r = r' \<or> r \<in> set (fst (print_rows tps ttpf es))"
        by (auto split: prod.splits)
      then show ?thesis
      proof
        assume "r = r'"
        then show ?thesis
          using stats_row_of_key [OF Inr] True x by auto
      next
        assume "r \<in> set (fst (print_rows tps ttpf es))"
        then show ?thesis
          using Cons.IH by auto
      qed
    qed
  qed
qed

lemma scast_eq_0: "(scast (x :: 32 word) :: 64 word) = 0 \<Longrightarrow> x = 0"
proof -
  assume "(scast x :: 64 word) = 0"
  then have "sint (scast x :: 64 word) = 0"
    by simp
  then have "sint x = 0"
    by (simp add: sint_up_scast is_up)
  then show "x = 0"
    by (simp add: signed_eq_0_iff)
qed

text \<open>
  C9. On a newly constructed object, look a key up (generation succeeds) and call
  \<open>UpdateStats\<close> once with \<open>prims = 0\<close>, a frame other than \<open>(uint64)-1\<close>, and
  \<open>ticks\<close> and \<open>actual\<close> not zero; the call returns normally. The entry then passes
  the test of line 130 (\<open>frames\<close>, \<open>actual\<close> and \<open>ttpf\<close> are not zero) while its
  \<open>prims\<close> is zero, and \<open>PrintStats\<close> divides \<open>p->actual\<close> by it: the report ends
  in a division by zero before its first line, for every tick frequency.
\<close>

theorem PrintStats_divides_by_zero_prims:
  assumes "gdf key d = (Inr v, d')"
      and "s1 = snd (operator_index gdf key (GSFunctionMap_new d))"
      and "UpdateStats debug fr tk ac tot 0 s1 = (Inr (), s2)"
      and "fr \<noteq> - 1" and "tk \<noteq> 0" and "ac \<noteq> 0"
  shows "m_map_active s2 = [(key, 0)]
         \<and> frames (heap s2 ! 0) \<noteq> 0 \<and> actual (heap s2 ! 0) \<noteq> 0
         \<and> ttpf_loop 0 (map (\<lambda>(key, p). (key, heap s2 ! p)) (m_map_active s2)) \<noteq> 0
         \<and> prims (heap s2 ! 0) = 0
         \<and> PrintStats tps s2 = ([], Some DivideByZero)"
proof -
  have s1: "s1 = \<lparr>heap = [new_ActivePtr\<lparr>fn := v\<rparr>], m_map_active = [(key, 0)],
                   m_active = Some 0, derived = d'\<rparr>"
    using assms(1,2) by (simp add: operator_index_def GSFunctionMap_new_def)
  let ?a = "\<lparr>frame = fr, frames = 1, prims = 0, ticks = tk, actual = scast ac,
             total_px = scast tot, fn = v\<rparr>"
  have s2: "s2 = s1\<lparr>heap := [?a]\<rparr>"
    using assms(3,4) by (auto simp: s1 UpdateStats_def UpdateStats_entry_def new_ActivePtr_def)
  have ac: "(scast ac :: uint64) \<noteq> 0"
    using assms(6) scast_eq_0 by blast
  show ?thesis
    using ac assms(5) by (simp add: s2 s1 PrintStats_def stats_row_of_def)
qed

text \<open>Key 1, then \<open>UpdateStats(1, 1000, 10, 12, 0)\<close> with assertions on.\<close>

theorem PrintStats_divides_by_zero_prims_witness:
  "fst (Lookup (stub_env True 16) 1 stub_map) = Inr 4096
   \<and> fst (UpdateStats True 1 1000 10 12 0 (snd (Lookup (stub_env True 16) 1 stub_map))) = Inr ()
   \<and> PrintStats 1000000
        (snd (UpdateStats True 1 1000 10 12 0 (snd (Lookup (stub_env True 16) 1 stub_map))))
       = ([], Some DivideByZero)"
proof -
  define s1 where "s1 = snd (Lookup (stub_env True 16) 1 stub_map)"
  define s2 where "s2 = snd (UpdateStats True 1 1000 10 12 0 s1)"
  have gen: "GetDefaultFunction (stub_env True 16) 1 (derived stub_map) =
               (Inr 4096, snd (GetDefaultFunction (stub_env True 16) 1 (derived stub_map)))"
    by (simp add: stub_defs)
  have s1': "s1 = snd (operator_index (GetDefaultFunction (stub_env True 16)) 1
                        (GSFunctionMap_new (derived stub_map)))"
    by (simp add: s1_def stub_defs)
  have le: "(10 :: uint64) \<le> 12"
    by simp
  have ok: "fst (UpdateStats True 1 1000 10 12 0 s1) = Inr ()"
    using le by (simp add: s1_def stub_defs)
  then have upd: "UpdateStats True 1 1000 10 12 0 s1 = (Inr (), s2)"
    by (simp add: s2_def prod_eq_iff)
  have r: "fst (Lookup (stub_env True 16) 1 stub_map) = Inr 4096"
    by (simp add: stub_defs)
  have "PrintStats 1000000 s2 = ([], Some DivideByZero)"
    using PrintStats_divides_by_zero_prims [OF gen s1' upd, of 1000000] by simp
  with r ok show ?thesis
    unfolding s2_def s1_def by blast
qed

subsection \<open>Claims about \<open>GetDefaultFunction\<close>\<close>

text \<open>What a generation that returned a function has done.\<close>

lemma GetDefaultFunction_generated:
  assumes "m_cgmap m (key_uint64 env key) = None"
      and "GetDefaultFunction env key m = (Inr f, m')"
  shows "\<exists>p cb cg. GetBuffer env MAX_SIZE (m_cb m) = (p, cb)
           \<and> CG_new env (m_param m) key p MAX_SIZE = Inr cg
           \<and> f = getCode cg
           \<and> m' = m\<lparr>m_cb := ReleaseBuffer env (getSize cg) cb,
                     m_total_code_size := m_total_code_size m + getSize cg,
                     m_cgmap := (m_cgmap m)(key_uint64 env key \<mapsto> getCode cg)\<rparr>"
  using assms
  by (auto simp: GetDefaultFunction_def Let_def split: prod.splits sum.splits)

lemma GetDefaultFunction_known:
  assumes "m_cgmap m (key_uint64 env key) = Some f"
  shows "GetDefaultFunction env key m = (Inr f, m)"
  using assms by (simp add: GetDefaultFunction_def)

lemma operator_index_generated:
  assumes "map_of (m_map_active s) key = None"
      and "operator_index gdf key s = (Inr f, s1)"
  shows "\<exists>d. gdf key (derived s) = (Inr f, d)
           \<and> s1 = s\<lparr>heap := heap s @ [new_ActivePtr\<lparr>fn := f\<rparr>],
                     m_map_active := m_map_active s @ [(key, length (heap s))],
                     m_active := Some (length (heap s)),
                     derived := d\<rparr>"
proof (cases "gdf key (derived s)")
  case (Pair r d)
  show ?thesis
  proof (cases r)
    case (Inl e)
    with Pair assms show ?thesis
      by (simp add: operator_index_throw)
  next
    case (Inr w)
    with Pair assms show ?thesis
      using operator_index_new [of s key gdf w d] by auto
  qed
qed

text \<open>
  A generation whose size passes the assertion of line 204, or meets no assertion:
  the bytes are counted (in \<open>size_t\<close>), exactly \<open>getSize()\<close> bytes are released to
  the code buffer, and the entry point is stored and returned.
\<close>

lemma GetDefaultFunction_accepts:
  assumes "m_cgmap m (key_uint64 env key) = None"
      and "GetBuffer env MAX_SIZE (m_cb m) = (code_ptr, cb1)"
      and "CG_new env (m_param m) key code_ptr MAX_SIZE = Inr cg"
      and "\<not> debug_build env \<or> getSize cg < MAX_SIZE"
  shows "GetDefaultFunction env key m =
           (Inr (getCode cg),
            m\<lparr>m_cb := ReleaseBuffer env (getSize cg) cb1,
              m_total_code_size := m_total_code_size m + getSize cg,
              m_cgmap := (m_cgmap m)(key_uint64 env key \<mapsto> getCode cg)\<rparr>)"
  using assms by (auto simp: GetDefaultFunction_def ASSERT_def Let_def)

text \<open>
  C6, as the code has it. \<open>MAX_SIZE\<close> is 8192, and the size is checked by
  \<open>ASSERT\<close> only. Take a key that is in neither map, so that the lookup generates, and
  let the generator be constructed with \<open>cg\<close> as the result.
  \<^item> With assertions compiled in, \<open>getSize() \<ge> MAX_SIZE\<close> fails the assertion of line
    204: the lookup ends with that fault, nothing is released to the code buffer and no
    entry is made.
  \<^item> With \<open>getSize() < MAX_SIZE\<close>, and with any size where assertions are compiled
    out, the generation returns the entry point, and the code buffer is the one after
    \<open>GetBuffer(MAX_SIZE)\<close> with exactly \<open>getSize()\<close> bytes released to it; the lookup
    returns that function.
\<close>

theorem generated_size_checked_and_committed:
  assumes "map_of (m_map_active s) key = None"
      and "m_cgmap (derived s) (key_uint64 env key) = None"
      and "GetBuffer env MAX_SIZE (m_cb (derived s)) = (code_ptr, cb1)"
      and "CG_new env (m_param (derived s)) key code_ptr MAX_SIZE = Inr cg"
  shows "MAX_SIZE = 8192
         \<and> (debug_build env \<and> MAX_SIZE \<le> getSize cg \<longrightarrow>
              GetDefaultFunction env key (derived s) = (Inl AssertionFailed, (derived s)\<lparr>m_cb := cb1\<rparr>)
              \<and> fst (Lookup env key s) = Inl AssertionFailed
              \<and> m_map_active (snd (Lookup env key s)) = m_map_active s)
         \<and> (\<not> debug_build env \<or> getSize cg < MAX_SIZE \<longrightarrow>
              GetDefaultFunction env key (derived s) =
                (Inr (getCode cg),
                 (derived s)\<lparr>m_cb := ReleaseBuffer env (getSize cg) cb1,
                             m_total_code_size := m_total_code_size (derived s) + getSize cg,
                             m_cgmap := (m_cgmap (derived s))(key_uint64 env key \<mapsto> getCode cg)\<rparr>)
              \<and> fst (Lookup env key s) = Inr (getCode cg)
              \<and> m_cb (derived (snd (Lookup env key s))) = ReleaseBuffer env (getSize cg) cb1
              \<and> map_of (m_map_active (snd (Lookup env key s))) key = Some (length (heap s)))"
proof (intro conjI impI)
  show "MAX_SIZE = 8192"
    by (simp add: MAX_SIZE_def)
next
  assume big: "debug_build env \<and> MAX_SIZE \<le> getSize cg"
  then have no: "\<not> getSize cg < MAX_SIZE"
    by (simp add: not_less)
  show g: "GetDefaultFunction env key (derived s) = (Inl AssertionFailed, (derived s)\<lparr>m_cb := cb1\<rparr>)"
    using assms(2,3,4) big no by (simp add: GetDefaultFunction_def ASSERT_def)
  note t = operator_index_throw
             [of s key "GetDefaultFunction env" AssertionFailed "(derived s)\<lparr>m_cb := cb1\<rparr>",
              OF assms(1) g]
  show "fst (Lookup env key s) = Inl AssertionFailed"
    using t by (simp add: Lookup_def)
  show "m_map_active (snd (Lookup env key s)) = m_map_active s"
    using t by (simp add: Lookup_def)
next
  assume ok: "\<not> debug_build env \<or> getSize cg < MAX_SIZE"
  show g: "GetDefaultFunction env key (derived s) =
                (Inr (getCode cg),
                 (derived s)\<lparr>m_cb := ReleaseBuffer env (getSize cg) cb1,
                             m_total_code_size := m_total_code_size (derived s) + getSize cg,
                             m_cgmap := (m_cgmap (derived s))(key_uint64 env key \<mapsto> getCode cg)\<rparr>)"
    using assms(2,3,4) ok by (rule GetDefaultFunction_accepts)
  note n = operator_index_new
             [of s key "GetDefaultFunction env" "getCode cg"
                 "(derived s)\<lparr>m_cb := ReleaseBuffer env (getSize cg) cb1,
                             m_total_code_size := m_total_code_size (derived s) + getSize cg,
                             m_cgmap := (m_cgmap (derived s))(key_uint64 env key \<mapsto> getCode cg)\<rparr>",
              OF assms(1) g]
  show "fst (Lookup env key s) = Inr (getCode cg)"
    using n by (simp add: Lookup_def)
  show "m_cb (derived (snd (Lookup env key s))) = ReleaseBuffer env (getSize cg) cb1"
    using n by (simp add: Lookup_def)
  show "map_of (m_map_active (snd (Lookup env key s))) key = Some (length (heap s))"
    using n assms(1) by (simp add: Lookup_def map_add_def)
qed

text \<open>
  Key 1 on the new object. With assertions on, a generator that emits 8192 bytes ends
  the lookup with the assertion fault, and one that emits 16 bytes succeeds and moves
  the code buffer from 4096 to 4112. With assertions off, the generator that emits 8192
  bytes succeeds as well and moves the code buffer to 12288.
\<close>

theorem generated_size_checked_and_committed_witness:
  "fst (Lookup (stub_env True 8192) 1 stub_map) = Inl AssertionFailed
   \<and> m_map_active (snd (Lookup (stub_env True 8192) 1 stub_map)) = []
   \<and> fst (Lookup (stub_env True 16) 1 stub_map) = Inr 4096
   \<and> m_cb (derived (snd (Lookup (stub_env True 16) 1 stub_map)))
       = \<lparr>arena_pos = 4112, arena_reserved = 0\<rparr>
   \<and> fst (Lookup (stub_env False 8192) 1 stub_map) = Inr 4096
   \<and> m_cb (derived (snd (Lookup (stub_env False 8192) 1 stub_map)))
       = \<lparr>arena_pos = 12288, arena_reserved = 0\<rparr>"
proof -
  let ?cb1 = "\<lparr>arena_pos = 4096, arena_reserved = 8192\<rparr>"
  let ?big = "\<lparr>cg_bytes = replicate 8192 0x90, cg_code = 4096\<rparr>"
  let ?small = "\<lparr>cg_bytes = replicate 16 0x90, cg_code = 4096\<rparr>"
  have absent: "map_of (m_map_active stub_map) (1 :: uint64) = None"
    by (simp add: stub_defs)
  have sz: "getSize ?big = 8192" "getSize ?small = 16"
    by (simp_all add: getSize_def)
  have code: "getCode ?big = 4096" "getCode ?small = 4096"
    by (simp_all add: getCode_def)
  have a2: "m_cgmap (derived stub_map) (key_uint64 (stub_env debug n) 1) = None" for debug n
    by (simp add: stub_defs)
  have a3: "GetBuffer (stub_env debug n) MAX_SIZE (m_cb (derived stub_map)) = (4096, ?cb1)"
    for debug n
    by (simp add: stub_defs)
  have a4: "CG_new (stub_env debug n) (m_param (derived stub_map)) 1 4096 MAX_SIZE
              = Inr \<lparr>cg_bytes = replicate n 0x90, cg_code = 4096\<rparr>" for debug n
    by (simp add: stub_defs)
  have big: "fst (Lookup (stub_env True 8192) 1 stub_map) = Inl AssertionFailed
             \<and> m_map_active (snd (Lookup (stub_env True 8192) 1 stub_map)) = m_map_active stub_map"
  proof -
    have h: "debug_build (stub_env True 8192) \<and> MAX_SIZE \<le> getSize ?big"
      by (simp add: stub_env_def sz MAX_SIZE_def)
    show ?thesis
      using generated_size_checked_and_committed [OF absent a2 a3 a4] h by blast
  qed
  have small: "fst (Lookup (stub_env True 16) 1 stub_map) = Inr 4096
             \<and> m_cb (derived (snd (Lookup (stub_env True 16) 1 stub_map)))
                 = \<lparr>arena_pos = 4112, arena_reserved = 0\<rparr>"
  proof -
    have h: "\<not> debug_build (stub_env True 16) \<or> getSize ?small < MAX_SIZE"
      by (simp add: sz MAX_SIZE_def)
    have r: "ReleaseBuffer (stub_env True 16) (getSize ?small) ?cb1
               = \<lparr>arena_pos = 4112, arena_reserved = 0\<rparr>"
      by (simp add: stub_env_def sz arena_ReleaseBuffer_def)
    have "fst (Lookup (stub_env True 16) 1 stub_map) = Inr (getCode ?small)
          \<and> m_cb (derived (snd (Lookup (stub_env True 16) 1 stub_map)))
              = ReleaseBuffer (stub_env True 16) (getSize ?small) ?cb1"
      using generated_size_checked_and_committed [OF absent a2 a3 a4] h by blast
    then show ?thesis
      by (simp only: code r)
  qed
  have release: "fst (Lookup (stub_env False 8192) 1 stub_map) = Inr 4096
             \<and> m_cb (derived (snd (Lookup (stub_env False 8192) 1 stub_map)))
                 = \<lparr>arena_pos = 12288, arena_reserved = 0\<rparr>"
  proof -
    have h: "\<not> debug_build (stub_env False 8192) \<or> getSize ?big < MAX_SIZE"
      by (simp add: stub_env_def)
    have r: "ReleaseBuffer (stub_env False 8192) (getSize ?big) ?cb1
               = \<lparr>arena_pos = 12288, arena_reserved = 0\<rparr>"
      by (simp add: stub_env_def sz arena_ReleaseBuffer_def)
    have "fst (Lookup (stub_env False 8192) 1 stub_map) = Inr (getCode ?big)
          \<and> m_cb (derived (snd (Lookup (stub_env False 8192) 1 stub_map)))
              = ReleaseBuffer (stub_env False 8192) (getSize ?big) ?cb1"
      using generated_size_checked_and_committed [OF absent a2 a3 a4] h by blast
    then show ?thesis
      by (simp only: code r)
  qed
  have "m_map_active stub_map = ([] :: (uint64 \<times> nat) list)"
    by (simp add: stub_defs)
  with big small release show ?thesis
    by simp
qed

text \<open>
  The claim C6 as it is written fails where \<open>ASSERT\<close> is compiled out. The generator
  emits 8192 bytes, which is not below \<open>MAX_SIZE\<close>. The lookup of key 1 on the new
  object returns the function at 4096 all the same: the entry is made, 8192 bytes are
  counted and the code buffer has moved by 8192.
\<close>

theorem oversized_generation_accepted_counterexample:
  "stub_CG 8192 () 1 4096 MAX_SIZE = Inr \<lparr>cg_bytes = replicate 8192 0x90, cg_code = 4096\<rparr>
   \<and> getSize \<lparr>cg_bytes = replicate 8192 0x90, cg_code = 4096\<rparr> = 8192
   \<and> \<not> getSize \<lparr>cg_bytes = replicate 8192 0x90, cg_code = 4096\<rparr> < MAX_SIZE
   \<and> fst (Lookup (stub_env False 8192) 1 stub_map) = Inr 4096
   \<and> m_map_active (snd (Lookup (stub_env False 8192) 1 stub_map)) = [(1, 0)]
   \<and> m_total_code_size (derived (snd (Lookup (stub_env False 8192) 1 stub_map))) = 8192
   \<and> m_cb (derived stub_map) = \<lparr>arena_pos = 4096, arena_reserved = 0\<rparr>
   \<and> m_cb (derived (snd (Lookup (stub_env False 8192) 1 stub_map)))
       = \<lparr>arena_pos = 12288, arena_reserved = 0\<rparr>"
  by (simp add: stub_defs)

text \<open>
  C1, as the code has it. \<open>m_cgmap\<close> is indexed by the key (converted to
  \<open>uint64\<close>), not by the bytes generated. Two keys with different \<open>uint64\<close> values,
  in neither map, are looked up one after the other and both lookups return a function:
  then a generator was constructed for each of them, on a region reserved for it, and
  each lookup returns the entry point of its own generator; the second region was reserved
  after the bytes of the first were released; \<open>m_total_code_size\<close> has grown by both
  sizes (a \<open>size_t\<close> sum, which wraps at \<open>2^64\<close>); and \<open>m_cgmap\<close> holds one
  function per key. None of this depends on the bytes
  emitted, which may be identical. \<open>m_cgmap\<close> is consulted only by a generation for a
  \<open>uint64\<close> value already in it, which returns the stored function and changes nothing.
\<close>

theorem distinct_keys_generate_separately:
  assumes "key_uint64 env k1 \<noteq> key_uint64 env k2"
      and "map_of (m_map_active s) k1 = None" and "map_of (m_map_active s) k2 = None"
      and "m_cgmap (derived s) (key_uint64 env k1) = None"
      and "m_cgmap (derived s) (key_uint64 env k2) = None"
      and "Lookup env k1 s = (Inr f1, s1)" and "Lookup env k2 s1 = (Inr f2, s2)"
  shows "\<exists>p1 cb1 cg1 p2 cb2 cg2.
           GetBuffer env MAX_SIZE (m_cb (derived s)) = (p1, cb1)
           \<and> CG_new env (m_param (derived s)) k1 p1 MAX_SIZE = Inr cg1 \<and> f1 = getCode cg1
           \<and> GetBuffer env MAX_SIZE (ReleaseBuffer env (getSize cg1) cb1) = (p2, cb2)
           \<and> CG_new env (m_param (derived s)) k2 p2 MAX_SIZE = Inr cg2 \<and> f2 = getCode cg2
           \<and> m_cb (derived s2) = ReleaseBuffer env (getSize cg2) cb2
           \<and> m_total_code_size (derived s2)
               = m_total_code_size (derived s) + getSize cg1 + getSize cg2
           \<and> m_cgmap (derived s2)
               = (m_cgmap (derived s))(key_uint64 env k1 \<mapsto> f1, key_uint64 env k2 \<mapsto> f2)
           \<and> GetDefaultFunction env k1 (derived s2) = (Inr f1, derived s2)
           \<and> GetDefaultFunction env k2 (derived s2) = (Inr f2, derived s2)"
proof -
  from operator_index_generated [OF assms(2)] assms(6)
  obtain d1 where g1: "GetDefaultFunction env k1 (derived s) = (Inr f1, d1)"
    and s1: "s1 = s\<lparr>heap := heap s @ [new_ActivePtr\<lparr>fn := f1\<rparr>],
                     m_map_active := m_map_active s @ [(k1, length (heap s))],
                     m_active := Some (length (heap s)),
                     derived := d1\<rparr>"
    unfolding Lookup_def by blast
  from GetDefaultFunction_generated [OF assms(4) g1]
  obtain p1 cb1 cg1 where b1: "GetBuffer env MAX_SIZE (m_cb (derived s)) = (p1, cb1)"
    and c1: "CG_new env (m_param (derived s)) k1 p1 MAX_SIZE = Inr cg1"
    and f1: "f1 = getCode cg1"
    and d1: "d1 = (derived s)\<lparr>m_cb := ReleaseBuffer env (getSize cg1) cb1,
                      m_total_code_size := m_total_code_size (derived s) + getSize cg1,
                      m_cgmap := (m_cgmap (derived s))(key_uint64 env k1 \<mapsto> getCode cg1)\<rparr>"
    by blast
  have k12: "k1 \<noteq> k2"
    using assms(1) by auto
  have absent2: "map_of (m_map_active s1) k2 = None"
    using assms(3) k12 by (simp add: s1 map_add_def)
  have ds1: "derived s1 = d1"
    by (simp add: s1)
  have unknown2: "m_cgmap (derived s1) (key_uint64 env k2) = None"
    using assms(1,5) by (simp add: ds1 d1)
  from operator_index_generated [OF absent2] assms(7)
  obtain d2 where g2: "GetDefaultFunction env k2 (derived s1) = (Inr f2, d2)"
    and ds2: "derived s2 = d2"
    unfolding Lookup_def by fastforce
  from GetDefaultFunction_generated [OF unknown2 g2]
  obtain p2 cb2 cg2 where b2: "GetBuffer env MAX_SIZE (m_cb (derived s1)) = (p2, cb2)"
    and c2: "CG_new env (m_param (derived s1)) k2 p2 MAX_SIZE = Inr cg2"
    and f2: "f2 = getCode cg2"
    and d2: "d2 = (derived s1)\<lparr>m_cb := ReleaseBuffer env (getSize cg2) cb2,
                      m_total_code_size := m_total_code_size (derived s1) + getSize cg2,
                      m_cgmap := (m_cgmap (derived s1))(key_uint64 env k2 \<mapsto> getCode cg2)\<rparr>"
    by blast
  have b2': "GetBuffer env MAX_SIZE (ReleaseBuffer env (getSize cg1) cb1) = (p2, cb2)"
    using b2 by (simp add: ds1 d1)
  have c2': "CG_new env (m_param (derived s)) k2 p2 MAX_SIZE = Inr cg2"
    using c2 by (simp add: ds1 d1)
  have cb: "m_cb (derived s2) = ReleaseBuffer env (getSize cg2) cb2"
    by (simp add: ds2 d2)
  have sz: "m_total_code_size (derived s2)
              = m_total_code_size (derived s) + getSize cg1 + getSize cg2"
    by (simp add: ds2 d2 ds1 d1)
  have mp: "m_cgmap (derived s2)
              = (m_cgmap (derived s))(key_uint64 env k1 \<mapsto> f1, key_uint64 env k2 \<mapsto> f2)"
    by (simp add: ds2 d2 ds1 d1 f1 f2)
  have h1: "GetDefaultFunction env k1 (derived s2) = (Inr f1, derived s2)"
    using assms(1) by (intro GetDefaultFunction_known) (simp add: mp)
  have h2: "GetDefaultFunction env k2 (derived s2) = (Inr f2, derived s2)"
    by (intro GetDefaultFunction_known) (simp add: mp)
  show ?thesis
    using b1 c1 f1 b2' c2' f2 cb sz mp h1 h2 by blast
qed

text \<open>
  Keys 1 and 2 on the new object, with a generator that emits 16 bytes: 32 bytes are
  counted, the code buffer ends at 4128, and a further generation for key 1 finds its
  function in \<open>m_cgmap\<close>.
\<close>

theorem distinct_keys_generate_separately_witness:
  "Lookup (stub_env False 16) 1 stub_map = (Inr 4096, snd (Lookup (stub_env False 16) 1 stub_map))
   \<and> Lookup (stub_env False 16) 2 (snd (Lookup (stub_env False 16) 1 stub_map))
       = (Inr 4112, snd (Lookup (stub_env False 16) 2 (snd (Lookup (stub_env False 16) 1 stub_map))))
   \<and> m_total_code_size
        (derived (snd (Lookup (stub_env False 16) 2 (snd (Lookup (stub_env False 16) 1 stub_map)))))
       = 32
   \<and> fst (GetDefaultFunction (stub_env False 16) 1
        (derived (snd (Lookup (stub_env False 16) 2 (snd (Lookup (stub_env False 16) 1 stub_map))))))
       = Inr 4096"
proof -
  let ?env = "stub_env False 16"
  define s1 where "s1 = snd (Lookup ?env 1 stub_map)"
  define s2 where "s2 = snd (Lookup ?env 2 s1)"
  have a1: "key_uint64 ?env 1 \<noteq> key_uint64 ?env 2"
    by (simp add: stub_env_def)
  have a2: "map_of (m_map_active stub_map) (1 :: uint64) = None"
    by (simp add: stub_defs)
  have a3: "map_of (m_map_active stub_map) (2 :: uint64) = None"
    by (simp add: stub_defs)
  have a4: "m_cgmap (derived stub_map) (key_uint64 ?env 1) = None"
    by (simp add: stub_defs)
  have a5: "m_cgmap (derived stub_map) (key_uint64 ?env 2) = None"
    by (simp add: stub_defs)
  have a6: "Lookup ?env 1 stub_map = (Inr 4096, s1)"
    by (simp add: s1_def stub_defs)
  have a7: "Lookup ?env 2 s1 = (Inr 4112, s2)"
    by (simp add: s2_def s1_def stub_defs)
  from distinct_keys_generate_separately [OF a1 a2 a3 a4 a5 a6 a7]
  obtain p1 cg1 p2 cg2 where sz: "m_total_code_size (derived s2)
               = m_total_code_size (derived stub_map) + getSize cg1 + getSize cg2"
    and c1: "CG_new ?env (m_param (derived stub_map)) 1 p1 MAX_SIZE = Inr cg1"
    and c2: "CG_new ?env (m_param (derived stub_map)) 2 p2 MAX_SIZE = Inr cg2"
    and h: "GetDefaultFunction ?env 1 (derived s2) = (Inr 4096, derived s2)"
    by blast
  have "getSize cg1 = 16" and "getSize cg2 = 16"
    using c1 c2 by (auto simp: stub_env_def stub_CG_def getSize_def)
  with sz have "m_total_code_size (derived s2) = 32"
    by (simp add: stub_defs)
  with a6 a7 h show ?thesis
    unfolding s2_def s1_def by simp
qed

text \<open>
  The claim C1 as it is written fails. The generator emits the same 16 bytes for key 1
  (at 4096) and for key 2 (at 4112). The two lookups return different functions, and
  two generations have taken place: 32 bytes are counted and the code buffer has moved
  by 32.
\<close>

theorem identical_bytes_not_shared_counterexample:
  "stub_CG 16 () 1 4096 MAX_SIZE = Inr \<lparr>cg_bytes = replicate 16 0x90, cg_code = 4096\<rparr>
   \<and> stub_CG 16 () 2 4112 MAX_SIZE = Inr \<lparr>cg_bytes = replicate 16 0x90, cg_code = 4112\<rparr>
   \<and> fst (Lookup (stub_env True 16) 1 stub_map) = Inr 4096
   \<and> fst (Lookup (stub_env True 16) 2 (snd (Lookup (stub_env True 16) 1 stub_map))) = Inr 4112
   \<and> fst (Lookup (stub_env True 16) 1 stub_map)
       \<noteq> fst (Lookup (stub_env True 16) 2 (snd (Lookup (stub_env True 16) 1 stub_map)))
   \<and> m_total_code_size (derived stub_map) = 0
   \<and> m_total_code_size
        (derived (snd (Lookup (stub_env True 16) 2 (snd (Lookup (stub_env True 16) 1 stub_map)))))
       = 32
   \<and> m_cb (derived stub_map) = \<lparr>arena_pos = 4096, arena_reserved = 0\<rparr>
   \<and> m_cb (derived (snd (Lookup (stub_env True 16) 2 (snd (Lookup (stub_env True 16) 1 stub_map)))))
       = \<lparr>arena_pos = 4128, arena_reserved = 0\<rparr>"
  by (simp add: stub_defs)

subsection \<open>The pointers stay valid\<close>

lemma pointers_valid_new: "pointers_valid (GSFunctionMap_new d)"
  by (simp add: pointers_valid_def GSFunctionMap_new_def)

lemma pointers_valid_operator_index:
  assumes "pointers_valid s"
  shows "pointers_valid (snd (operator_index gdf key s))"
proof (cases "map_of (m_map_active s) key")
  case (Some p)
  then have "p \<in> snd ` set (m_map_active s)"
    by (force dest: map_of_SomeD)
  with assms show ?thesis
    by (auto simp: operator_index_hit [OF Some] pointers_valid_def)
next
  case None
  obtain r d where g: "gdf key (derived s) = (r, d)"
    by (cases "gdf key (derived s)")
  show ?thesis
  proof (cases r)
    case (Inl e)
    with None g assms show ?thesis
      by (auto simp: operator_index_throw pointers_valid_def)
  next
    case (Inr v)
    with None g assms show ?thesis
      by (auto simp: operator_index_new pointers_valid_def)
  qed
qed

lemma pointers_valid_UpdateStats:
  assumes "pointers_valid s"
  shows "pointers_valid (snd (UpdateStats debug fr tk ac tot pr s))"
  using assms by (auto simp: UpdateStats_def pointers_valid_def Let_def split: option.splits)

lemma operator_index_keeps_entries:
  assumes "q < length (heap s)"
  shows "heap (snd (operator_index gdf key s)) ! q = heap s ! q"
proof (cases "map_of (m_map_active s) key")
  case (Some p)
  then show ?thesis
    by (simp add: operator_index_hit)
next
  case None
  obtain r d where g: "gdf key (derived s) = (r, d)"
    by (cases "gdf key (derived s)")
  show ?thesis
  proof (cases r)
    case (Inl e)
    with None g assms show ?thesis
      by (simp add: operator_index_throw nth_append)
  next
    case (Inr v)
    with None g assms show ?thesis
      by (simp add: operator_index_new nth_append)
  qed
qed

subsection \<open>A sequence of calls, on the object and on the entry\<close>

lemma UpdateStats_routed:
  assumes "m_active s = Some p"
  shows "snd (UpdateStats debug fr tk ac tot pr s) =
           s\<lparr>heap := (heap s)[p := UpdateStats_entry fr tk ac tot pr (heap s ! p)]\<rparr>"
  using assms by (simp add: UpdateStats_def Let_def)

lemma UpdateStats_entries_append:
  "UpdateStats_entries (xs @ ys) a = UpdateStats_entries ys (UpdateStats_entries xs a)"
  by (induction xs a rule: UpdateStats_entries.induct) simp_all

lemma UpdateStats_calls_append:
  "UpdateStats_calls debug (xs @ ys) s =
     (case UpdateStats_calls debug xs s of
        (Inl e, s1) \<Rightarrow> (Inl e, s1)
      | (Inr u, s1) \<Rightarrow> UpdateStats_calls debug ys s1)"
  by (induction debug xs s rule: UpdateStats_calls.induct)
     (auto split: prod.splits sum.splits)

text \<open>A sequence that ran to its end has applied every call to the active entry.\<close>

lemma UpdateStats_calls_state:
  assumes "m_active s = Some p" and "p < length (heap s)"
      and "UpdateStats_calls debug cs s = (Inr (), s')"
  shows "s' = s\<lparr>heap := (heap s)[p := UpdateStats_entries cs (heap s ! p)]\<rparr>"
  using assms
proof (induction cs arbitrary: s)
  case Nil
  then show ?case by simp
next
  case (Cons c cs)
  obtain fr tk ac tot pr where c: "c = (fr, tk, ac, tot, pr)"
    by (cases c)
  let ?e = "UpdateStats_entry fr tk ac tot pr (heap s ! p)"
  let ?s1 = "s\<lparr>heap := (heap s)[p := ?e]\<rparr>"
  have s1: "snd (UpdateStats debug fr tk ac tot pr s) = ?s1"
    using Cons.prems(1) by (rule UpdateStats_routed)
  have run: "UpdateStats_calls debug cs ?s1 = (Inr (), s')"
    using Cons.prems(3) s1
    by (cases "UpdateStats debug fr tk ac tot pr s")
       (auto simp: c split: sum.splits)
  have "s' = ?s1\<lparr>heap := (heap ?s1)[p := UpdateStats_entries cs (heap ?s1 ! p)]\<rparr>"
    using Cons.prems(1,2) by (intro Cons.IH [OF _ _ run]) simp_all
  then show ?case
    using Cons.prems(2) by (simp add: c)
qed

text \<open>A sequence runs to its end when the assertion holds after each of its calls.\<close>

lemma UpdateStats_calls_complete:
  assumes "m_active s = Some p" and "p < length (heap s)"
      and "\<And>n. actual (UpdateStats_entries (take n cs) (heap s ! p))
                 \<le> total_px (UpdateStats_entries (take n cs) (heap s ! p))"
  shows "fst (UpdateStats_calls debug cs s) = Inr ()"
  using assms
proof (induction cs arbitrary: s)
  case Nil
  then show ?case by simp
next
  case (Cons c cs)
  obtain fr tk ac tot pr where c: "c = (fr, tk, ac, tot, pr)"
    by (cases c)
  let ?e = "UpdateStats_entry fr tk ac tot pr (heap s ! p)"
  let ?s1 = "s\<lparr>heap := (heap s)[p := ?e]\<rparr>"
  have "actual ?e \<le> total_px ?e"
    using Cons.prems(3) [of 1] by (simp add: c)
  then have u: "UpdateStats debug fr tk ac tot pr s = (Inr (), ?s1)"
    using Cons.prems(1) by (simp add: UpdateStats_def Let_def ASSERT_def)
  have "fst (UpdateStats_calls debug cs ?s1) = Inr ()"
  proof (rule Cons.IH)
    show "m_active ?s1 = Some p"
      using Cons.prems(1) by simp
    show "p < length (heap ?s1)"
      using Cons.prems(2) by simp
    fix n
    show "actual (UpdateStats_entries (take n cs) (heap ?s1 ! p))
            \<le> total_px (UpdateStats_entries (take n cs) (heap ?s1 ! p))"
      using Cons.prems(3) [of "Suc n"] Cons.prems(2) by (simp add: c)
  qed
  then show ?case
    by (simp add: c u)
qed

subsection \<open>What the calls add up to\<close>

lemma sum_list_take_le: "sum_list (take n (xs :: nat list)) \<le> sum_list xs"
proof -
  have "sum_list (take n xs) + sum_list (drop n xs) = sum_list xs"
    by (metis append_take_drop_id sum_list_append)
  then show ?thesis
    by linarith
qed

lemma sum_list_map_take_le: "(\<Sum>c\<leftarrow>take n cs. (f c :: nat)) \<le> (\<Sum>c\<leftarrow>cs. f c)"
  using sum_list_take_le [of n "map f cs"] by (simp add: take_map)

lemma entries_ticks:
  assumes "unat (ticks a) + (\<Sum>c\<leftarrow>cs. unat (call_ticks c)) < 2 ^ 64"
  shows "unat (ticks (UpdateStats_entries cs a)) = unat (ticks a) + (\<Sum>c\<leftarrow>cs. unat (call_ticks c))"
  using assms
proof (induction cs a rule: UpdateStats_entries.induct)
  case (1 a)
  then show ?case by simp
next
  case (2 fr tk ac tot pr cs a)
  let ?e = "UpdateStats_entry fr tk ac tot pr a"
  have "unat (ticks a) + unat tk < 2 ^ 64"
    using "2.prems" by simp
  then have e: "unat (ticks ?e) = unat (ticks a) + unat tk"
    by (simp add: UpdateStats_entry_def Let_def unat_plus_exact)
  with "2.prems" have "unat (ticks ?e) + (\<Sum>c\<leftarrow>cs. unat (call_ticks c)) < 2 ^ 64"
    by simp
  from "2.IH" [OF this] e show ?case
    by simp
qed

lemma entries_actual:
  assumes "\<forall>c \<in> set cs. 0 \<le> sint (call_actual c)"
      and "unat (actual a) + (\<Sum>c\<leftarrow>cs. nat (sint (call_actual c))) < 2 ^ 64"
  shows "unat (actual (UpdateStats_entries cs a))
           = unat (actual a) + (\<Sum>c\<leftarrow>cs. nat (sint (call_actual c)))"
  using assms
proof (induction cs a rule: UpdateStats_entries.induct)
  case (1 a)
  then show ?case by simp
next
  case (2 fr tk ac tot pr cs a)
  let ?e = "UpdateStats_entry fr tk ac tot pr a"
  have ac: "unat (scast ac :: uint64) = nat (sint ac)"
    using "2.prems"(1) by (simp add: unat_scast_nonneg)
  have "unat (actual a) + unat (scast ac :: uint64) < 2 ^ 64"
    using "2.prems"(2) by (simp add: ac)
  then have e: "unat (actual ?e) = unat (actual a) + nat (sint ac)"
    by (simp add: UpdateStats_entry_def Let_def unat_plus_exact ac)
  with "2.prems" have "unat (actual ?e) + (\<Sum>c\<leftarrow>cs. nat (sint (call_actual c))) < 2 ^ 64"
    by simp
  from "2.IH" [OF _ this] "2.prems"(1) e show ?case
    by simp
qed

lemma entries_total:
  assumes "\<forall>c \<in> set cs. 0 \<le> sint (call_total c)"
      and "unat (total_px a) + (\<Sum>c\<leftarrow>cs. nat (sint (call_total c))) < 2 ^ 64"
  shows "unat (total_px (UpdateStats_entries cs a))
           = unat (total_px a) + (\<Sum>c\<leftarrow>cs. nat (sint (call_total c)))"
  using assms
proof (induction cs a rule: UpdateStats_entries.induct)
  case (1 a)
  then show ?case by simp
next
  case (2 fr tk ac tot pr cs a)
  let ?e = "UpdateStats_entry fr tk ac tot pr a"
  have t: "unat (scast tot :: uint64) = nat (sint tot)"
    using "2.prems"(1) by (simp add: unat_scast_nonneg)
  have "unat (total_px a) + unat (scast tot :: uint64) < 2 ^ 64"
    using "2.prems"(2) by (simp add: t)
  then have e: "unat (total_px ?e) = unat (total_px a) + nat (sint tot)"
    by (simp add: UpdateStats_entry_def Let_def unat_plus_exact t)
  with "2.prems" have "unat (total_px ?e) + (\<Sum>c\<leftarrow>cs. nat (sint (call_total c))) < 2 ^ 64"
    by simp
  from "2.IH" [OF _ this] "2.prems"(1) e show ?case
    by simp
qed

lemma entry_frames_le: "unat (frames (UpdateStats_entry fr tk ac tot pr a)) \<le> unat (frames a) + 1"
  using unat_succ_le [of "frames a"] by (simp add: UpdateStats_entry_def Let_def)

lemma entry_frame: "frame (UpdateStats_entry fr tk ac tot pr a) = fr"
  by (simp add: UpdateStats_entry_def Let_def)

lemma entries_frames_upper:
  "unat (frames (UpdateStats_entries cs a)) \<le> unat (frames a) + length cs"
proof (induction cs a rule: UpdateStats_entries.induct)
  case (1 a)
  then show ?case by simp
next
  case (2 fr tk ac tot pr cs a)
  then show ?case
    using entry_frames_le [of fr tk ac tot pr a] by simp
qed

lemma entries_frames_lower:
  assumes "unat (frames a) + length cs < 2 ^ 64"
  shows "unat (frames a) \<le> unat (frames (UpdateStats_entries cs a))"
  using assms
proof (induction cs a rule: UpdateStats_entries.induct)
  case (1 a)
  then show ?case by simp
next
  case (2 fr tk ac tot pr cs a)
  let ?e = "UpdateStats_entry fr tk ac tot pr a"
  have "unat (frames a) + unat (1 :: uint64) < 2 ^ 64"
    using "2.prems" by simp
  then have "unat (frames a + 1) = unat (frames a) + 1"
    using unat_plus_exact [of "frames a" 1] by simp
  then have lo: "unat (frames a) \<le> unat (frames ?e)"
    by (simp add: UpdateStats_entry_def Let_def)
  have "unat (frames ?e) + length cs < 2 ^ 64"
    using entry_frames_le [of fr tk ac tot pr a] "2.prems" by simp
  from "2.IH" [OF this] lo show ?case
    by simp
qed

text \<open>
  When the frames of the calls never decrease, \<open>frames\<close> grows by at most the number
  of different frames among them.
\<close>

lemma entries_frames_sorted_from:
  assumes "sorted (map call_frame cs)" and "\<forall>c \<in> set cs. frame a \<le> call_frame c"
  shows "unat (frames (UpdateStats_entries cs a))
           \<le> unat (frames a) + card (set (map call_frame cs) - {frame a})"
  using assms
proof (induction cs a rule: UpdateStats_entries.induct)
  case (1 a)
  then show ?case by simp
next
  case (2 fr tk ac tot pr cs a)
  let ?e = "UpdateStats_entry fr tk ac tot pr a"
  have srt: "sorted (map call_frame cs)" and ge: "\<forall>c \<in> set cs. fr \<le> call_frame c"
    using "2.prems"(1) by auto
  have ih: "unat (frames (UpdateStats_entries cs ?e))
              \<le> unat (frames ?e) + card (set (map call_frame cs) - {fr})"
    using "2.IH" [OF srt] ge by (simp add: entry_frame)
  show ?case
  proof (cases "frame a = fr")
    case True
    then have "frames ?e = frames a"
      by (simp add: UpdateStats_entry_def Let_def)
    moreover have "set (map call_frame ((fr, tk, ac, tot, pr) # cs)) - {frame a}
                     = set (map call_frame cs) - {fr}"
      using True by auto
    ultimately show ?thesis
      using ih by simp
  next
    case False
    have lt: "frame a < fr"
      using False "2.prems"(2) by (simp add: order_less_le)
    have "frame a \<notin> set (map call_frame cs)"
      using ge lt by (auto simp: not_le [symmetric])
    then have "set (map call_frame ((fr, tk, ac, tot, pr) # cs)) - {frame a}
                 = insert fr (set (map call_frame cs) - {fr})"
      using False by auto
    then have "card (set (map call_frame ((fr, tk, ac, tot, pr) # cs)) - {frame a})
                 = Suc (card (set (map call_frame cs) - {fr}))"
      by (simp add: card.insert_remove)
    then show ?thesis
      using ih entry_frames_le [of fr tk ac tot pr a] by simp
  qed
qed

lemma entries_frames_sorted:
  assumes "sorted (map call_frame cs)"
  shows "unat (frames (UpdateStats_entries cs a))
           \<le> unat (frames a) + card (set (map call_frame cs))"
proof (cases cs)
  case Nil
  then show ?thesis by simp
next
  case (Cons c cs')
  obtain fr tk ac tot pr where c: "c = (fr, tk, ac, tot, pr)"
    by (cases c)
  let ?e = "UpdateStats_entry fr tk ac tot pr a"
  have srt: "sorted (map call_frame cs')" and ge: "\<forall>c \<in> set cs'. frame ?e \<le> call_frame c"
    using assms by (auto simp: Cons c entry_frame)
  have "unat (frames (UpdateStats_entries cs' ?e))
          \<le> unat (frames ?e) + card (set (map call_frame cs') - {fr})"
    using entries_frames_sorted_from [OF srt ge] by (simp add: entry_frame)
  moreover have "card (set (map call_frame cs)) = Suc (card (set (map call_frame cs') - {fr}))"
    by (simp add: Cons c card.insert_remove)
  ultimately show ?thesis
    using entry_frames_le [of fr tk ac tot pr a] by (simp add: Cons c)
qed

subsection \<open>Claims about sequences of \<open>UpdateStats\<close> calls\<close>

lemma entries_actual_le_total:
  assumes "actual a \<le> total_px a"
      and "\<forall>c \<in> set cs. 0 \<le> sint (call_actual c) \<and> sint (call_actual c) \<le> sint (call_total c)"
      and "unat (total_px a) + (\<Sum>c\<leftarrow>cs. nat (sint (call_total c))) < 2 ^ 64"
  shows "actual (UpdateStats_entries cs a) \<le> total_px (UpdateStats_entries cs a)"
proof -
  have sums: "(\<Sum>c\<leftarrow>cs. nat (sint (call_actual c))) \<le> (\<Sum>c\<leftarrow>cs. nat (sint (call_total c)))"
    using assms(2) by (intro sum_list_mono nat_mono) simp
  have start: "unat (actual a) \<le> unat (total_px a)"
    using assms(1) by (simp add: word_le_nat_alt)
  have ac: "unat (actual (UpdateStats_entries cs a))
              = unat (actual a) + (\<Sum>c\<leftarrow>cs. nat (sint (call_actual c)))"
    using assms(2,3) sums start by (intro entries_actual) auto
  have tot: "unat (total_px (UpdateStats_entries cs a))
              = unat (total_px a) + (\<Sum>c\<leftarrow>cs. nat (sint (call_total c)))"
    using assms(2,3) by (intro entries_total) auto
  show ?thesis
    using sums start by (simp add: word_le_nat_alt ac tot)
qed

text \<open>
  C5, as the code has it. The counters are \<open>uint64\<close> and the arguments are \<open>int\<close>,
  so the claim needs more than \<open>total \<ge> actual\<close> in each call. For an entry with
  \<open>total \<ge> actual\<close> and a sequence of calls routed to it, each with
  \<open>0 \<le> actual \<le> total\<close>, whose \<open>total\<close> arguments do not carry the counter past
  \<open>2^64\<close>: the sequence runs to its end, with assertions on as well, and
  \<open>total \<ge> actual\<close> holds in the entry after every call.
\<close>

theorem total_at_least_actual_after_every_call:
  assumes "pointers_valid s" and "m_active s = Some p"
      and "actual (heap s ! p) \<le> total_px (heap s ! p)"
      and "\<forall>c \<in> set cs. 0 \<le> sint (call_actual c) \<and> sint (call_actual c) \<le> sint (call_total c)"
      and "unat (total_px (heap s ! p)) + (\<Sum>c\<leftarrow>cs. nat (sint (call_total c))) < 2 ^ 64"
  shows "fst (UpdateStats_calls debug cs s) = Inr ()
         \<and> (\<forall>n. fst (UpdateStats_calls debug (take n cs) s) = Inr ()
                \<and> actual (heap (snd (UpdateStats_calls debug (take n cs) s)) ! p)
                    \<le> total_px (heap (snd (UpdateStats_calls debug (take n cs) s)) ! p))"
proof -
  let ?a = "heap s ! p"
  have plt: "p < length (heap s)"
    using assms(1,2) by (simp add: pointers_valid_def)
  have ok: "actual (UpdateStats_entries (take n cs) ?a) \<le> total_px (UpdateStats_entries (take n cs) ?a)"
    for n
  proof (rule entries_actual_le_total [OF assms(3)])
    show "\<forall>c \<in> set (take n cs). 0 \<le> sint (call_actual c) \<and> sint (call_actual c) \<le> sint (call_total c)"
      using assms(4) by (auto dest: in_set_takeD)
    show "unat (total_px ?a) + (\<Sum>c\<leftarrow>take n cs. nat (sint (call_total c))) < 2 ^ 64"
      using assms(5) sum_list_map_take_le [of "\<lambda>c. nat (sint (call_total c))" n cs] by linarith
  qed
  have all: "fst (UpdateStats_calls debug cs s) = Inr ()"
    using assms(2) plt ok by (rule UpdateStats_calls_complete)
  have each: "fst (UpdateStats_calls debug (take n cs) s) = Inr ()
                \<and> actual (heap (snd (UpdateStats_calls debug (take n cs) s)) ! p)
                    \<le> total_px (heap (snd (UpdateStats_calls debug (take n cs) s)) ! p)" for n
  proof -
    have "actual (UpdateStats_entries (take m (take n cs)) ?a)
            \<le> total_px (UpdateStats_entries (take m (take n cs)) ?a)" for m
      using ok [of "min m n"] by simp
    with assms(2) plt have f: "fst (UpdateStats_calls debug (take n cs) s) = Inr ()"
      by (rule UpdateStats_calls_complete)
    then have "UpdateStats_calls debug (take n cs) s
                 = (Inr (), snd (UpdateStats_calls debug (take n cs) s))"
      by (simp add: prod_eq_iff)
    from UpdateStats_calls_state [OF assms(2) plt this]
    have st: "snd (UpdateStats_calls debug (take n cs) s)
                = s\<lparr>heap := (heap s)[p := UpdateStats_entries (take n cs) ?a]\<rparr>" .
    have "heap (snd (UpdateStats_calls debug (take n cs) s)) ! p = UpdateStats_entries (take n cs) ?a"
      using plt by (simp add: st)
    with f ok [of n] show ?thesis
      by simp
  qed
  from all each show ?thesis
    by blast
qed

text \<open>
  Key 1 on the new object, then three calls with assertions on: all return, and the
  entry ends with \<open>actual = 18\<close> and \<open>total = 21\<close>.
\<close>

theorem total_at_least_actual_after_every_call_witness:
  "fst (UpdateStats_calls True [(1, 1000, 10, 12, 10), (1, 500, 5, 5, 5), (2, 300, 3, 4, 3)]
          (snd (Lookup (stub_env True 16) 1 stub_map))) = Inr ()
   \<and> actual (heap (snd (UpdateStats_calls True
                 [(1, 1000, 10, 12, 10), (1, 500, 5, 5, 5), (2, 300, 3, 4, 3)]
                 (snd (Lookup (stub_env True 16) 1 stub_map)))) ! 0) = 18
   \<and> total_px (heap (snd (UpdateStats_calls True
                 [(1, 1000, 10, 12, 10), (1, 500, 5, 5, 5), (2, 300, 3, 4, 3)]
                 (snd (Lookup (stub_env True 16) 1 stub_map)))) ! 0) = 21"
proof -
  define s1 where "s1 = snd (Lookup (stub_env True 16) 1 stub_map)"
  let ?cs = "[(1, 1000, 10, 12, 10), (1, 500, 5, 5, 5), (2, 300, 3, 4, 3)] :: stats_call list"
  have s1: "s1 = \<lparr>heap = [new_ActivePtr\<lparr>fn := 4096\<rparr>], m_map_active = [(1, 0)],
                   m_active = Some 0, derived = derived s1\<rparr>"
    by (simp add: s1_def stub_defs)
  have pv: "pointers_valid s1"
    by (subst s1) (simp add: pointers_valid_def)
  have act: "m_active s1 = Some 0"
    by (subst s1) simp
  have start: "actual (heap s1 ! 0) \<le> total_px (heap s1 ! 0)"
    by (subst (1 2) s1) (simp add: new_ActivePtr_def)
  have calls: "\<forall>c \<in> set ?cs. 0 \<le> sint (call_actual c) \<and> sint (call_actual c) \<le> sint (call_total c)"
    by simp
  have bound: "unat (total_px (heap s1 ! 0)) + (\<Sum>c\<leftarrow>?cs. nat (sint (call_total c))) < 2 ^ 64"
    by (subst s1) (simp add: new_ActivePtr_def)
  have ok: "fst (UpdateStats_calls True ?cs s1) = Inr ()"
    using total_at_least_actual_after_every_call [OF pv act start calls bound, of True]
    by blast
  have le: "(10 :: uint64) \<le> 12" "(15 :: uint64) \<le> 17" "(18 :: uint64) \<le> 21"
    by simp_all
  have "heap (snd (UpdateStats_calls True ?cs s1)) ! 0
          = \<lparr>frame = 2, frames = 2, prims = 18, ticks = 1800, actual = 18, total_px = 21, fn = 4096\<rparr>"
    using le by (subst s1) (simp add: UpdateStats_def UpdateStats_entry_def new_ActivePtr_def ASSERT_def)
  with ok show ?thesis
    unfolding s1_def by simp
qed

text \<open>
  The claim C5 as it is written fails. The call \<open>UpdateStats(1, 0, -1, 0, 0)\<close> has
  \<open>total \<ge> actual\<close> as \<open>int\<close> values. On a fresh entry it leaves
  \<open>actual = 2^64 - 1\<close> and \<open>total = 0\<close>: with assertions on the assertion of line
  98 fails, without them the entry is left with \<open>total < actual\<close>.
\<close>

theorem total_at_least_actual_counterexample:
  "sint (call_actual (1, 0, - 1, 0, 0)) \<le> sint (call_total (1, 0, - 1, 0, 0))
   \<and> UpdateStats_calls True [(1, 0, - 1, 0, 0)] (snd (Lookup (stub_env True 16) 1 stub_map))
       = (Inl AssertionFailed,
          (snd (Lookup (stub_env True 16) 1 stub_map))
            \<lparr>heap := [\<lparr>frame = 1, frames = 1, prims = 0, ticks = 0,
                       actual = 18446744073709551615, total_px = 0, fn = 4096\<rparr>]\<rparr>)
   \<and> UpdateStats_calls False [(1, 0, - 1, 0, 0)] (snd (Lookup (stub_env False 16) 1 stub_map))
       = (Inr (),
          (snd (Lookup (stub_env False 16) 1 stub_map))
            \<lparr>heap := [\<lparr>frame = 1, frames = 1, prims = 0, ticks = 0,
                       actual = 18446744073709551615, total_px = 0, fn = 4096\<rparr>]\<rparr>)
   \<and> (0 :: uint64) < 18446744073709551615"
  by (simp add: stub_defs)

text \<open>
  The counters after a sequence of calls, exactly: \<open>frames\<close> has grown by the number
  of calls whose frame differs from the frame before, the other counters by the sum of
  the arguments, all in \<open>uint64\<close> arithmetic.
\<close>

lemma entries_frames_exact:
  "frames (UpdateStats_entries cs a)
     = frames a + of_nat (epoch_changes (frame a) (map call_frame cs))"
proof (induction cs a rule: UpdateStats_entries.induct)
  case (1 a)
  then show ?case by simp
next
  case (2 fr tk ac tot pr cs a)
  let ?e = "UpdateStats_entry fr tk ac tot pr a"
  have "frames ?e = frames a + of_nat (if fr \<noteq> frame a then 1 else 0)"
    by (auto simp: UpdateStats_entry_def Let_def)
  with "2.IH" show ?case
    by (simp add: entry_frame)
qed

lemma entries_ticks_exact:
  "ticks (UpdateStats_entries cs a) = ticks a + sum_list (map call_ticks cs)"
  by (induction cs a rule: UpdateStats_entries.induct)
     (simp_all add: UpdateStats_entry_def Let_def)

lemma entries_actual_exact:
  "actual (UpdateStats_entries cs a) = actual a + (\<Sum>c\<leftarrow>cs. scast (call_actual c))"
  by (induction cs a rule: UpdateStats_entries.induct)
     (simp_all add: UpdateStats_entry_def Let_def)

lemma entries_total_exact:
  "total_px (UpdateStats_entries cs a) = total_px a + (\<Sum>c\<leftarrow>cs. scast (call_total c))"
  by (induction cs a rule: UpdateStats_entries.induct)
     (simp_all add: UpdateStats_entry_def Let_def)

lemma epoch_changes_le: "epoch_changes e0 es \<le> length es"
  by (induction e0 es rule: epoch_changes.induct) auto

lemma entries_frames_count:
  assumes "unat (frames a) + length cs < 2 ^ 64"
  shows "unat (frames (UpdateStats_entries cs a))
           = unat (frames a) + epoch_changes (frame a) (map call_frame cs)"
proof -
  let ?n = "epoch_changes (frame a) (map call_frame cs)"
  have n: "?n \<le> length cs"
    using epoch_changes_le [of "frame a" "map call_frame cs"] by simp
  then have "?n < 2 ^ 64"
    using assms by simp
  then have u: "unat (of_nat ?n :: uint64) = ?n"
    by (simp add: unat_of_nat)
  have "unat (frames a) + unat (of_nat ?n :: uint64) < 2 ^ 64"
    using assms n by (simp add: u)
  then have "unat (frames a + of_nat ?n) = unat (frames a) + ?n"
    using unat_plus_exact [of "frames a" "of_nat ?n"] by (simp add: u)
  then show ?thesis
    by (simp add: entries_frames_exact)
qed

text \<open>
  C2, as the code has it. The counters are \<open>uint64\<close> values that wrap, the
  \<open>int\<close> arguments may be negative, and \<open>frames\<close> counts the calls whose frame
  differs from the frame of the call before, not the different frames. Take an object
  with valid pointers whose active entry is \<open>p\<close>, and a sequence of calls \<open>xs\<close>
  followed by \<open>ys\<close> that runs to its end. Between the end of \<open>xs\<close> and the end of
  \<open>ys\<close>:
  \<^item> \<open>frames\<close> grows, in \<open>uint64\<close> arithmetic, by exactly the number of calls of
    \<open>ys\<close> whose frame differs from the frame of the call before (\<open>epoch_changes\<close>);
    that is at most one per call, and at most the number of different frames in \<open>ys\<close>
    when the frames of \<open>ys\<close> never decrease;
  \<^item> as long as the counter does not pass \<open>2^64\<close>, \<open>frames\<close> does not decrease
    and the growth is that number as a natural number;
  \<^item> \<open>ticks\<close>, \<open>actual\<close> and \<open>total\<close> grow, in \<open>uint64\<close> arithmetic, by
    exactly the sums of the arguments (the \<open>int\<close> ones sign-extended); each of them
    does not decrease when its arguments are not negative and its sum stays below
    \<open>2^64\<close>;
  \<^item> every other object is what it was, and so is the map.
  One call routed to the entry sets \<open>frame\<close> to its frame and adds one to \<open>frames\<close>
  exactly when the two frames differ. A lookup changes none of the objects that
  exist. On a fresh entry, frames 1 then 2 give \<open>frames = 2\<close>, and frame 1 twice
  gives \<open>frames = 1\<close>.
\<close>

theorem statistics_nondecreasing:
  assumes "pointers_valid s" and "m_active s = Some p"
      and "UpdateStats_calls debug (xs @ ys) s = (Inr (), s2)"
  shows "\<exists>s1. UpdateStats_calls debug xs s = (Inr (), s1)
           \<and> frames (heap s2 ! p)
               = frames (heap s1 ! p)
                 + of_nat (epoch_changes (frame (heap s1 ! p)) (map call_frame ys))
           \<and> unat (frames (heap s2 ! p)) \<le> unat (frames (heap s1 ! p)) + length ys
           \<and> (sorted (map call_frame ys) \<longrightarrow>
                unat (frames (heap s2 ! p))
                  \<le> unat (frames (heap s1 ! p)) + card (set (map call_frame ys)))
           \<and> (unat (frames (heap s ! p)) + length (xs @ ys) < 2 ^ 64 \<longrightarrow>
                frames (heap s1 ! p) \<le> frames (heap s2 ! p)
                \<and> unat (frames (heap s2 ! p))
                    = unat (frames (heap s1 ! p))
                      + epoch_changes (frame (heap s1 ! p)) (map call_frame ys))
           \<and> ticks (heap s2 ! p) = ticks (heap s1 ! p) + sum_list (map call_ticks ys)
           \<and> actual (heap s2 ! p)
               = actual (heap s1 ! p) + (\<Sum>c\<leftarrow>ys. scast (call_actual c))
           \<and> total_px (heap s2 ! p)
               = total_px (heap s1 ! p) + (\<Sum>c\<leftarrow>ys. scast (call_total c))
           \<and> (unat (ticks (heap s ! p)) + (\<Sum>c\<leftarrow>xs @ ys. unat (call_ticks c)) < 2 ^ 64 \<longrightarrow>
                ticks (heap s1 ! p) \<le> ticks (heap s2 ! p))
           \<and> ((\<forall>c \<in> set (xs @ ys). 0 \<le> sint (call_actual c))
                \<and> unat (actual (heap s ! p)) + (\<Sum>c\<leftarrow>xs @ ys. nat (sint (call_actual c))) < 2 ^ 64
                \<longrightarrow> actual (heap s1 ! p) \<le> actual (heap s2 ! p))
           \<and> ((\<forall>c \<in> set (xs @ ys). 0 \<le> sint (call_total c))
                \<and> unat (total_px (heap s ! p)) + (\<Sum>c\<leftarrow>xs @ ys. nat (sint (call_total c))) < 2 ^ 64
                \<longrightarrow> total_px (heap s1 ! p) \<le> total_px (heap s2 ! p))
           \<and> (\<forall>q. q \<noteq> p \<longrightarrow> heap s2 ! q = heap s ! q)
           \<and> m_map_active s2 = m_map_active s
           \<and> frames (heap (snd (UpdateStats debug fr tk ac tot pr s)) ! p)
               = (if frame (heap s ! p) \<noteq> fr then frames (heap s ! p) + 1 else frames (heap s ! p))
           \<and> frame (heap (snd (UpdateStats debug fr tk ac tot pr s)) ! p) = fr
           \<and> (\<forall>q < length (heap s). heap (snd (operator_index gdf key s)) ! q = heap s ! q)
           \<and> frames (UpdateStats_entries [(1, tk1, ac1, tot1, pr1), (2, tk2, ac2, tot2, pr2)]
                       (new_ActivePtr\<lparr>fn := v\<rparr>)) = 2
           \<and> frames (UpdateStats_entries [(1, tk1, ac1, tot1, pr1), (1, tk2, ac2, tot2, pr2)]
                       (new_ActivePtr\<lparr>fn := v\<rparr>)) = 1"
proof -
  let ?a = "heap s ! p"
  let ?a1 = "UpdateStats_entries xs ?a"
  let ?a2 = "UpdateStats_entries ys ?a1"
  have plt: "p < length (heap s)"
    using assms(1,2) by (simp add: pointers_valid_def)
  obtain s1 where r1: "UpdateStats_calls debug xs s = (Inr (), s1)"
    using assms(3)
    by (cases "UpdateStats_calls debug xs s")
       (auto simp: UpdateStats_calls_append split: sum.splits)
  have s1: "s1 = s\<lparr>heap := (heap s)[p := ?a1]\<rparr>"
    using assms(2) plt r1 by (rule UpdateStats_calls_state)
  have s2: "s2 = s\<lparr>heap := (heap s)[p := ?a2]\<rparr>"
    using UpdateStats_calls_state [OF assms(2) plt assms(3)]
    by (simp add: UpdateStats_entries_append)
  have h1: "heap s1 ! p = ?a1" and h2: "heap s2 ! p = ?a2"
    using plt by (simp_all add: s1 s2)
  have fr_exact: "frames (heap s2 ! p)
               = frames (heap s1 ! p)
                 + of_nat (epoch_changes (frame (heap s1 ! p)) (map call_frame ys))"
    by (simp only: h1 h2 entries_frames_exact)
  have fr_up: "unat (frames (heap s2 ! p)) \<le> unat (frames (heap s1 ! p)) + length ys"
    by (simp only: h1 h2 entries_frames_upper)
  have fr_sorted: "sorted (map call_frame ys) \<longrightarrow>
                unat (frames (heap s2 ! p))
                  \<le> unat (frames (heap s1 ! p)) + card (set (map call_frame ys))"
  proof
    assume "sorted (map call_frame ys)"
    from entries_frames_sorted [OF this, of ?a1]
    show "unat (frames (heap s2 ! p))
            \<le> unat (frames (heap s1 ! p)) + card (set (map call_frame ys))"
      by (simp only: h1 h2)
  qed
  have fr_mono: "unat (frames (heap s ! p)) + length (xs @ ys) < 2 ^ 64 \<longrightarrow>
                frames (heap s1 ! p) \<le> frames (heap s2 ! p)
                \<and> unat (frames (heap s2 ! p))
                    = unat (frames (heap s1 ! p))
                      + epoch_changes (frame (heap s1 ! p)) (map call_frame ys)"
  proof
    assume b: "unat (frames (heap s ! p)) + length (xs @ ys) < 2 ^ 64"
    have "unat (frames ?a1) \<le> unat (frames ?a) + length xs"
      by (rule entries_frames_upper)
    with b have b1: "unat (frames ?a1) + length ys < 2 ^ 64"
      by simp
    have lo: "unat (frames ?a1) \<le> unat (frames ?a2)"
      using b1 by (rule entries_frames_lower)
    have cnt: "unat (frames ?a2)
                 = unat (frames ?a1) + epoch_changes (frame ?a1) (map call_frame ys)"
      using b1 by (rule entries_frames_count)
    show "frames (heap s1 ! p) \<le> frames (heap s2 ! p)
                \<and> unat (frames (heap s2 ! p))
                    = unat (frames (heap s1 ! p))
                      + epoch_changes (frame (heap s1 ! p)) (map call_frame ys)"
      using lo cnt by (simp only: h1 h2 word_le_nat_alt)
  qed
  have tk_exact: "ticks (heap s2 ! p) = ticks (heap s1 ! p) + sum_list (map call_ticks ys)"
    by (simp only: h1 h2 entries_ticks_exact)
  have ac_exact: "actual (heap s2 ! p)
               = actual (heap s1 ! p) + (\<Sum>c\<leftarrow>ys. scast (call_actual c))"
    by (simp only: h1 h2 entries_actual_exact)
  have to_exact: "total_px (heap s2 ! p)
               = total_px (heap s1 ! p) + (\<Sum>c\<leftarrow>ys. scast (call_total c))"
    by (simp only: h1 h2 entries_total_exact)
  have tk_mono: "unat (ticks (heap s ! p)) + (\<Sum>c\<leftarrow>xs @ ys. unat (call_ticks c)) < 2 ^ 64 \<longrightarrow>
                ticks (heap s1 ! p) \<le> ticks (heap s2 ! p)"
  proof
    assume b: "unat (ticks (heap s ! p)) + (\<Sum>c\<leftarrow>xs @ ys. unat (call_ticks c)) < 2 ^ 64"
    have tk1: "unat (ticks ?a1) = unat (ticks ?a) + (\<Sum>c\<leftarrow>xs. unat (call_ticks c))"
      using b by (intro entries_ticks) simp
    have tk2: "unat (ticks ?a2) = unat (ticks ?a1) + (\<Sum>c\<leftarrow>ys. unat (call_ticks c))"
      using b by (intro entries_ticks) (simp add: tk1)
    show "ticks (heap s1 ! p) \<le> ticks (heap s2 ! p)"
      by (simp add: h1 h2 word_le_nat_alt tk2)
  qed
  have ac_mono: "(\<forall>c \<in> set (xs @ ys). 0 \<le> sint (call_actual c))
                \<and> unat (actual (heap s ! p)) + (\<Sum>c\<leftarrow>xs @ ys. nat (sint (call_actual c))) < 2 ^ 64
                \<longrightarrow> actual (heap s1 ! p) \<le> actual (heap s2 ! p)"
  proof
    assume b: "(\<forall>c \<in> set (xs @ ys). 0 \<le> sint (call_actual c))
                \<and> unat (actual (heap s ! p)) + (\<Sum>c\<leftarrow>xs @ ys. nat (sint (call_actual c))) < 2 ^ 64"
    then have nn1: "\<forall>c \<in> set xs. 0 \<le> sint (call_actual c)"
      and nn2: "\<forall>c \<in> set ys. 0 \<le> sint (call_actual c)"
      by auto
    have ac1: "unat (actual ?a1) = unat (actual ?a) + (\<Sum>c\<leftarrow>xs. nat (sint (call_actual c)))"
      using b by (intro entries_actual nn1) simp
    have ac2: "unat (actual ?a2) = unat (actual ?a1) + (\<Sum>c\<leftarrow>ys. nat (sint (call_actual c)))"
      using b by (intro entries_actual nn2) (simp add: ac1)
    show "actual (heap s1 ! p) \<le> actual (heap s2 ! p)"
      by (simp add: h1 h2 word_le_nat_alt ac2)
  qed
  have to_mono: "(\<forall>c \<in> set (xs @ ys). 0 \<le> sint (call_total c))
                \<and> unat (total_px (heap s ! p)) + (\<Sum>c\<leftarrow>xs @ ys. nat (sint (call_total c))) < 2 ^ 64
                \<longrightarrow> total_px (heap s1 ! p) \<le> total_px (heap s2 ! p)"
  proof
    assume b: "(\<forall>c \<in> set (xs @ ys). 0 \<le> sint (call_total c))
                \<and> unat (total_px (heap s ! p)) + (\<Sum>c\<leftarrow>xs @ ys. nat (sint (call_total c))) < 2 ^ 64"
    then have nn1: "\<forall>c \<in> set xs. 0 \<le> sint (call_total c)"
      and nn2: "\<forall>c \<in> set ys. 0 \<le> sint (call_total c)"
      by auto
    have to1: "unat (total_px ?a1) = unat (total_px ?a) + (\<Sum>c\<leftarrow>xs. nat (sint (call_total c)))"
      using b by (intro entries_total nn1) simp
    have to2: "unat (total_px ?a2) = unat (total_px ?a1) + (\<Sum>c\<leftarrow>ys. nat (sint (call_total c)))"
      using b by (intro entries_total nn2) (simp add: to1)
    show "total_px (heap s1 ! p) \<le> total_px (heap s2 ! p)"
      by (simp add: h1 h2 word_le_nat_alt to2)
  qed
  have others: "\<forall>q. q \<noteq> p \<longrightarrow> heap s2 ! q = heap s ! q"
    by (simp add: s2)
  have table: "m_map_active s2 = m_map_active s"
    by (simp add: s2)
  have step: "heap (snd (UpdateStats debug fr tk ac tot pr s)) ! p
                = UpdateStats_entry fr tk ac tot pr ?a"
    using plt by (simp add: UpdateStats_routed [OF assms(2)])
  have step_frames: "frames (heap (snd (UpdateStats debug fr tk ac tot pr s)) ! p)
               = (if frame (heap s ! p) \<noteq> fr then frames (heap s ! p) + 1 else frames (heap s ! p))"
    by (simp add: step UpdateStats_entry_def Let_def)
  have step_frame: "frame (heap (snd (UpdateStats debug fr tk ac tot pr s)) ! p) = fr"
    by (simp add: step entry_frame)
  have lookup: "\<forall>q < length (heap s). heap (snd (operator_index gdf key s)) ! q = heap s ! q"
    by (simp add: operator_index_keeps_entries)
  have two: "frames (UpdateStats_entries [(1, tk1, ac1, tot1, pr1), (2, tk2, ac2, tot2, pr2)]
                       (new_ActivePtr\<lparr>fn := v\<rparr>)) = 2"
    by (simp add: UpdateStats_entry_def new_ActivePtr_def)
  have one: "frames (UpdateStats_entries [(1, tk1, ac1, tot1, pr1), (1, tk2, ac2, tot2, pr2)]
                       (new_ActivePtr\<lparr>fn := v\<rparr>)) = 1"
    by (simp add: UpdateStats_entry_def new_ActivePtr_def)
  show ?thesis
    by (intro exI [of _ s1] conjI r1 fr_exact fr_up fr_sorted fr_mono tk_exact ac_exact
          to_exact tk_mono ac_mono to_mono others table step_frames step_frame lookup two one)
qed

text \<open>
  Key 1 on the new object; one call in frame 1, then one more in frame 1 and one in
  frame 2. After the first call the entry has \<open>frames = 1\<close>, \<open>ticks = 1000\<close>,
  \<open>actual = 10\<close>, \<open>total = 12\<close>; at the end \<open>frames = 2\<close>, \<open>ticks = 1800\<close>,
  \<open>actual = 18\<close>, \<open>total = 21\<close>. Of the last two calls one has a frame that differs
  from the frame before.
\<close>

theorem statistics_nondecreasing_witness:
  "UpdateStats_calls True [(1, 1000, 10, 12, 10)] (snd (Lookup (stub_env True 16) 1 stub_map))
     = (Inr (), (snd (Lookup (stub_env True 16) 1 stub_map))
                  \<lparr>heap := [\<lparr>frame = 1, frames = 1, prims = 10, ticks = 1000, actual = 10,
                             total_px = 12, fn = 4096\<rparr>]\<rparr>)
   \<and> UpdateStats_calls True ([(1, 1000, 10, 12, 10)] @ [(1, 500, 5, 5, 5), (2, 300, 3, 4, 3)])
        (snd (Lookup (stub_env True 16) 1 stub_map))
     = (Inr (), (snd (Lookup (stub_env True 16) 1 stub_map))
                  \<lparr>heap := [\<lparr>frame = 2, frames = 2, prims = 18, ticks = 1800, actual = 18,
                             total_px = 21, fn = 4096\<rparr>]\<rparr>)
   \<and> sorted (map call_frame [(1, 500, 5, 5, 5), (2, 300, 3, 4, 3)])
   \<and> card (set (map call_frame [(1, 500, 5, 5, 5), (2, 300, 3, 4, 3)])) = 2
   \<and> epoch_changes 1 (map call_frame [(1, 500, 5, 5, 5), (2, 300, 3, 4, 3)]) = 1
   \<and> (\<exists>s1. UpdateStats_calls True [(1, 1000, 10, 12, 10)] (snd (Lookup (stub_env True 16) 1 stub_map))
              = (Inr (), s1)
            \<and> 2 = frames (heap s1 ! 0)
                    + of_nat (epoch_changes (frame (heap s1 ! 0))
                                (map call_frame [(1, 500, 5, 5, 5), (2, 300, 3, 4, 3)]))
            \<and> frames (heap s1 ! 0) \<le> 2 \<and> ticks (heap s1 ! 0) \<le> 1800
            \<and> actual (heap s1 ! 0) \<le> 18 \<and> total_px (heap s1 ! 0) \<le> 21)"
proof -
  define s0 where "s0 = snd (Lookup (stub_env True 16) 1 stub_map)"
  let ?xs = "[(1, 1000, 10, 12, 10)] :: stats_call list"
  let ?ys = "[(1, 500, 5, 5, 5), (2, 300, 3, 4, 3)] :: stats_call list"
  let ?e2 = "\<lparr>frame = 2, frames = 2, prims = 18, ticks = 1800, actual = 18, total_px = 21,
              fn = 4096 :: nat\<rparr>"
  have s0: "s0 = \<lparr>heap = [new_ActivePtr\<lparr>fn := 4096\<rparr>], m_map_active = [(1, 0)],
                   m_active = Some 0, derived = derived s0\<rparr>"
    by (simp add: s0_def stub_defs)
  have pv: "pointers_valid s0"
    by (subst s0) (simp add: pointers_valid_def)
  have act: "m_active s0 = Some 0"
    by (subst s0) simp
  have le: "(10 :: uint64) \<le> 12" "(15 :: uint64) \<le> 17" "(18 :: uint64) \<le> 21"
    by simp_all
  have r1: "UpdateStats_calls True ?xs s0
     = (Inr (), s0\<lparr>heap := [\<lparr>frame = 1, frames = 1, prims = 10, ticks = 1000, actual = 10,
                             total_px = 12, fn = 4096\<rparr>]\<rparr>)"
    using le by (subst (1 2) s0) (simp add: UpdateStats_def UpdateStats_entry_def new_ActivePtr_def ASSERT_def)
  have r2: "UpdateStats_calls True (?xs @ ?ys) s0 = (Inr (), s0\<lparr>heap := [?e2]\<rparr>)"
    using le by (subst (1 2) s0) (simp add: UpdateStats_def UpdateStats_entry_def new_ActivePtr_def ASSERT_def)
  have nn_ac: "\<forall>c \<in> set (?xs @ ?ys). 0 \<le> sint (call_actual c)"
    and nn_to: "\<forall>c \<in> set (?xs @ ?ys). 0 \<le> sint (call_total c)"
    by simp_all
  have b1: "unat (frames (heap s0 ! 0)) + length (?xs @ ?ys) < 2 ^ 64"
    by (subst s0) (simp add: new_ActivePtr_def)
  have b2: "unat (ticks (heap s0 ! 0)) + (\<Sum>c\<leftarrow>?xs @ ?ys. unat (call_ticks c)) < 2 ^ 64"
    by (subst s0) (simp add: new_ActivePtr_def)
  have b3: "unat (actual (heap s0 ! 0)) + (\<Sum>c\<leftarrow>?xs @ ?ys. nat (sint (call_actual c))) < 2 ^ 64"
    by (subst s0) (simp add: new_ActivePtr_def)
  have b4: "unat (total_px (heap s0 ! 0)) + (\<Sum>c\<leftarrow>?xs @ ?ys. nat (sint (call_total c))) < 2 ^ 64"
    by (subst s0) (simp add: new_ActivePtr_def)
  have srt: "sorted (map call_frame ?ys)"
    by simp
  have crd: "card (set (map call_frame ?ys)) = 2"
    by simp
  have chg: "epoch_changes 1 (map call_frame ?ys) = 1"
    by simp
  let ?s2 = "s0\<lparr>heap := [?e2]\<rparr>"
  from statistics_nondecreasing
         [OF pv act r2,
          where gdf = "GetDefaultFunction (stub_env True 16)" and key = 1
            and fr = 1 and tk = 0 and ac = 0 and tot = 0 and pr = 0
            and ?tk1.0 = 0 and ?ac1.0 = 0 and ?tot1.0 = 0 and ?pr1.0 = 0
            and ?tk2.0 = 0 and ?ac2.0 = 0 and ?tot2.0 = 0 and ?pr2.0 = 0 and v = "0 :: nat"]
  obtain s1 where run: "UpdateStats_calls True ?xs s0 = (Inr (), s1)"
    and fx: "frames (heap ?s2 ! 0)
           = frames (heap s1 ! 0) + of_nat (epoch_changes (frame (heap s1 ! 0)) (map call_frame ?ys))"
    and fm: "unat (frames (heap s0 ! 0)) + length (?xs @ ?ys) < 2 ^ 64 \<longrightarrow>
                frames (heap s1 ! 0) \<le> frames (heap ?s2 ! 0)
                \<and> unat (frames (heap ?s2 ! 0))
                    = unat (frames (heap s1 ! 0))
                      + epoch_changes (frame (heap s1 ! 0)) (map call_frame ?ys)"
    and tm: "unat (ticks (heap s0 ! 0)) + (\<Sum>c\<leftarrow>?xs @ ?ys. unat (call_ticks c)) < 2 ^ 64 \<longrightarrow>
                ticks (heap s1 ! 0) \<le> ticks (heap ?s2 ! 0)"
    and am: "(\<forall>c \<in> set (?xs @ ?ys). 0 \<le> sint (call_actual c))
                \<and> unat (actual (heap s0 ! 0)) + (\<Sum>c\<leftarrow>?xs @ ?ys. nat (sint (call_actual c))) < 2 ^ 64
                \<longrightarrow> actual (heap s1 ! 0) \<le> actual (heap ?s2 ! 0)"
    and om: "(\<forall>c \<in> set (?xs @ ?ys). 0 \<le> sint (call_total c))
                \<and> unat (total_px (heap s0 ! 0)) + (\<Sum>c\<leftarrow>?xs @ ?ys. nat (sint (call_total c))) < 2 ^ 64
                \<longrightarrow> total_px (heap s1 ! 0) \<le> total_px (heap ?s2 ! 0)"
    by (elim exE conjE) (rule that)
  have "frames (heap s1 ! 0) \<le> frames (heap ?s2 ! 0)"
    using fm b1 by (rule_tac conjunct1) (rule mp)
  moreover have "ticks (heap s1 ! 0) \<le> ticks (heap ?s2 ! 0)"
    using tm b2 by (rule mp)
  moreover have "actual (heap s1 ! 0) \<le> actual (heap ?s2 ! 0)"
    using am nn_ac b3 by blast
  moreover have "total_px (heap s1 ! 0) \<le> total_px (heap ?s2 ! 0)"
    using om nn_to b4 by blast
  moreover note run fx
  ultimately have "UpdateStats_calls True ?xs s0 = (Inr (), s1)"
    and "frames (heap ?s2 ! 0)
           = frames (heap s1 ! 0) + of_nat (epoch_changes (frame (heap s1 ! 0)) (map call_frame ?ys))"
    and "frames (heap s1 ! 0) \<le> frames (heap ?s2 ! 0)"
    and "ticks (heap s1 ! 0) \<le> ticks (heap ?s2 ! 0)"
    and "actual (heap s1 ! 0) \<le> actual (heap ?s2 ! 0)"
    and "total_px (heap s1 ! 0) \<le> total_px (heap ?s2 ! 0)"
    by blast+
  then have ex: "\<exists>s1. UpdateStats_calls True ?xs s0 = (Inr (), s1)
            \<and> 2 = frames (heap s1 ! 0)
                    + of_nat (epoch_changes (frame (heap s1 ! 0)) (map call_frame ?ys))
            \<and> frames (heap s1 ! 0) \<le> 2 \<and> ticks (heap s1 ! 0) \<le> 1800
            \<and> actual (heap s1 ! 0) \<le> 18 \<and> total_px (heap s1 ! 0) \<le> 21"
    by (intro exI [of _ s1]) simp
  from r1 r2 srt crd chg ex show ?thesis
    unfolding s0_def by (intro conjI)
qed

text \<open>
  The claim C2 as it is written fails in three ways, each shown on a fresh entry with
  assertions on and every call returning. Frames 1, 2, 1 are two different frames and
  give \<open>frames = 3\<close>. After \<open>actual = 5\<close> a call with \<open>actual = -1\<close> leaves
  \<open>actual = 4\<close> (and \<open>total\<close> likewise). After \<open>ticks = 2^64 - 1\<close> a call with
  \<open>ticks = 1\<close> leaves \<open>ticks = 0\<close>.
\<close>

theorem statistics_nondecreasing_counterexample:
  "UpdateStats_calls True [(1, 0, 1, 1, 1), (2, 0, 1, 1, 1), (1, 0, 1, 1, 1)]
     (snd (Lookup (stub_env True 16) 1 stub_map))
     = (Inr (), (snd (Lookup (stub_env True 16) 1 stub_map))
                  \<lparr>heap := [\<lparr>frame = 1, frames = 3, prims = 3, ticks = 0, actual = 3,
                             total_px = 3, fn = 4096\<rparr>]\<rparr>)
   \<and> card (set (map call_frame [(1, 0, 1, 1, 1), (2, 0, 1, 1, 1), (1, 0, 1, 1, 1)])) = 2
   \<and> UpdateStats_calls True [(1, 0, 5, 5, 1)] (snd (Lookup (stub_env True 16) 1 stub_map))
     = (Inr (), (snd (Lookup (stub_env True 16) 1 stub_map))
                  \<lparr>heap := [\<lparr>frame = 1, frames = 1, prims = 1, ticks = 0, actual = 5,
                             total_px = 5, fn = 4096\<rparr>]\<rparr>)
   \<and> UpdateStats_calls True [(1, 0, 5, 5, 1), (1, 0, - 1, - 1, 0)]
        (snd (Lookup (stub_env True 16) 1 stub_map))
     = (Inr (), (snd (Lookup (stub_env True 16) 1 stub_map))
                  \<lparr>heap := [\<lparr>frame = 1, frames = 1, prims = 1, ticks = 0, actual = 4,
                             total_px = 4, fn = 4096\<rparr>]\<rparr>)
   \<and> UpdateStats_calls True [(1, 18446744073709551615, 0, 0, 0)]
        (snd (Lookup (stub_env True 16) 1 stub_map))
     = (Inr (), (snd (Lookup (stub_env True 16) 1 stub_map))
                  \<lparr>heap := [\<lparr>frame = 1, frames = 1, prims = 0, ticks = 18446744073709551615,
                             actual = 0, total_px = 0, fn = 4096\<rparr>]\<rparr>)
   \<and> UpdateStats_calls True [(1, 18446744073709551615, 0, 0, 0), (1, 1, 0, 0, 0)]
        (snd (Lookup (stub_env True 16) 1 stub_map))
     = (Inr (), (snd (Lookup (stub_env True 16) 1 stub_map))
                  \<lparr>heap := [\<lparr>frame = 1, frames = 1, prims = 0, ticks = 0,
                             actual = 0, total_px = 0, fn = 4096\<rparr>]\<rparr>)"
proof -
  have "set (map call_frame [(1, 0, 1, 1, 1), (2, 0, 1, 1, 1), (1, 0, 1, 1, 1)]) = {1, 2}"
    by auto
  then have c: "card (set (map call_frame [(1, 0, 1, 1, 1), (2, 0, 1, 1, 1), (1, 0, 1, 1, 1)])) = 2"
    by simp
  show ?thesis
    using c by (simp add: stub_defs)
qed

subsection \<open>The claim about a first frame equal to the initial \<open>frame\<close>\<close>

text \<open>
  While \<open>p\<close> is the one entry of \<open>key\<close>, a lookup of any key leaves it so and does
  not touch the object; an \<open>UpdateStats\<close> call leaves it so and changes the object
  only when it is routed to it.
\<close>

lemma one_entry_operator_index:
  assumes "map_of (m_map_active s) key = Some p"
      and "\<forall>q. (key, q) \<in> set (m_map_active s) \<longrightarrow> q = p"
      and "p < length (heap s)"
      and "s' = snd (operator_index gdf k s)"
  shows "map_of (m_map_active s') key = Some p
         \<and> (\<forall>q. (key, q) \<in> set (m_map_active s') \<longrightarrow> q = p)
         \<and> p < length (heap s') \<and> heap s' ! p = heap s ! p"
proof (cases "map_of (m_map_active s) k")
  case (Some a)
  with assms show ?thesis
    by (simp add: operator_index_hit)
next
  case None
  then have k: "k \<noteq> key"
    using assms(1) by auto
  obtain r d where g: "gdf k (derived s) = (r, d)"
    by (cases "gdf k (derived s)")
  show ?thesis
  proof (cases r)
    case (Inl e)
    with None g assms show ?thesis
      by (simp add: operator_index_throw nth_append)
  next
    case (Inr v)
    with None g assms k show ?thesis
      by (simp add: operator_index_new nth_append map_add_def)
  qed
qed

lemma one_entry_UpdateStats:
  assumes "map_of (m_map_active s) key = Some p"
      and "\<forall>q. (key, q) \<in> set (m_map_active s) \<longrightarrow> q = p"
      and "p < length (heap s)"
      and "s' = snd (UpdateStats debug fr tk ac tot pr s)"
  shows "map_of (m_map_active s') key = Some p
         \<and> (\<forall>q. (key, q) \<in> set (m_map_active s') \<longrightarrow> q = p)
         \<and> p < length (heap s')
         \<and> heap s' ! p = (if routed_to s key then UpdateStats_entry fr tk ac tot pr (heap s ! p)
                          else heap s ! p)"
proof (cases "m_active s")
  case None
  with assms show ?thesis
    by (simp add: UpdateStats_def routed_to_def)
next
  case (Some a)
  have s': "s' = s\<lparr>heap := (heap s)[a := UpdateStats_entry fr tk ac tot pr (heap s ! a)]\<rparr>"
    using assms(4) by (simp add: UpdateStats_routed [OF Some])
  show ?thesis
  proof (cases "a = p")
    case True
    with Some assms(1,2,3) show ?thesis
      by (simp add: s' routed_to_def)
  next
    case False
    with Some assms(1,2,3) show ?thesis
      by (auto simp: s' routed_to_def)
  qed
qed

text \<open>
  An entry whose \<open>frame\<close> is \<open>fr0\<close> keeps its \<open>frames\<close> through lookups and calls,
  as long as every call routed to it has the frame \<open>fr0\<close>.
\<close>

lemma run_operations_keeps_frames:
  assumes "map_of (m_map_active s) key = Some p"
      and "\<forall>q. (key, q) \<in> set (m_map_active s) \<longrightarrow> q = p"
      and "p < length (heap s)"
      and "frame (heap s ! p) = fr0"
      and "routed_frames_all gdf debug key fr0 ops s"
      and "run_operations gdf debug ops s = Inr s'"
  shows "map_of (m_map_active s') key = Some p
         \<and> (\<forall>q. (key, q) \<in> set (m_map_active s') \<longrightarrow> q = p)
         \<and> p < length (heap s')
         \<and> frame (heap s' ! p) = fr0 \<and> frames (heap s' ! p) = frames (heap s ! p)"
  using assms
proof (induction ops arbitrary: s)
  case Nil
  then show ?case by simp
next
  case (Cons op ops)
  show ?case
  proof (cases op)
    case (Op_Lookup k)
    let ?s1 = "snd (operator_index gdf k s)"
    note o = one_entry_operator_index [OF Cons.prems(1,2,3) refl, of gdf k]
    have "map_of (m_map_active s') key = Some p
           \<and> (\<forall>q. (key, q) \<in> set (m_map_active s') \<longrightarrow> q = p)
           \<and> p < length (heap s')
           \<and> frame (heap s' ! p) = fr0 \<and> frames (heap s' ! p) = frames (heap ?s1 ! p)"
    proof (rule Cons.IH)
      show "map_of (m_map_active ?s1) key = Some p"
        and "\<forall>q. (key, q) \<in> set (m_map_active ?s1) \<longrightarrow> q = p"
        and "p < length (heap ?s1)"
        using o by blast+
      show "frame (heap ?s1 ! p) = fr0"
        using o Cons.prems(4) by simp
      show "routed_frames_all gdf debug key fr0 ops ?s1"
        using Cons.prems(5) by (simp add: Op_Lookup)
      show "run_operations gdf debug ops ?s1 = Inr s'"
        using Cons.prems(6) by (simp add: Op_Lookup)
    qed
    with o show ?thesis
      by simp
  next
    case (Op_UpdateStats c)
    obtain fr tk ac tot pr where c: "c = (fr, tk, ac, tot, pr)"
      by (cases c)
    obtain r s1 where r: "UpdateStats debug fr tk ac tot pr s = (r, s1)"
      by (cases "UpdateStats debug fr tk ac tot pr s")
    then have s1: "s1 = snd (UpdateStats debug fr tk ac tot pr s)"
      by simp
    note u = one_entry_UpdateStats [OF Cons.prems(1,2,3) s1]
    have run: "run_operations gdf debug ops s1 = Inr s'"
      using Cons.prems(6) by (cases r) (simp_all add: Op_UpdateStats c r)
    have rest: "routed_frames_all gdf debug key fr0 ops s1"
      using Cons.prems(5) by (simp add: Op_UpdateStats c r)
    have same: "frame (heap s1 ! p) = fr0 \<and> frames (heap s1 ! p) = frames (heap s ! p)"
    proof (cases "routed_to s key")
      case True
      with Cons.prems(5) have "fr = fr0"
        by (simp add: Op_UpdateStats c)
      with True u Cons.prems(4) show ?thesis
        by (simp add: UpdateStats_entry_def Let_def)
    next
      case False
      with u Cons.prems(4) show ?thesis
        by simp
    qed
    have "map_of (m_map_active s') key = Some p
           \<and> (\<forall>q. (key, q) \<in> set (m_map_active s') \<longrightarrow> q = p)
           \<and> p < length (heap s')
           \<and> frame (heap s' ! p) = fr0 \<and> frames (heap s' ! p) = frames (heap s1 ! p)"
    proof (rule Cons.IH)
      show "map_of (m_map_active s1) key = Some p"
        and "\<forall>q. (key, q) \<in> set (m_map_active s1) \<longrightarrow> q = p"
        and "p < length (heap s1)"
        using u by blast+
      show "frame (heap s1 ! p) = fr0"
        using same by simp
      show "routed_frames_all gdf debug key fr0 ops s1"
        by (rule rest)
      show "run_operations gdf debug ops s1 = Inr s'"
        by (rule run)
    qed
    with same show ?thesis
      by simp
  qed
qed

text \<open>The report has no line for a key whose one entry has \<open>frames = 0\<close>.\<close>

lemma PrintStats_omits_unused:
  assumes "\<forall>q. (key, q) \<in> set (m_map_active s) \<longrightarrow> q = p"
      and "frames (heap s ! p) = 0"
  shows "key \<notin> row_key ` set (fst (PrintStats tps s))"
proof
  assume "key \<in> row_key ` set (fst (PrintStats tps s))"
  then obtain r where r: "r \<in> set (fst (PrintStats tps s))" and k: "row_key r = key"
    by auto
  let ?es = "map (\<lambda>(key, p). (key, heap s ! p)) (m_map_active s)"
  have "r \<in> set (fst (print_rows tps (ttpf_loop 0 ?es) ?es))"
    using r by (simp add: PrintStats_def Let_def)
  then have "\<exists>e. (row_key r, e) \<in> set ?es \<and> frames e \<noteq> 0"
    by (rule print_rows_frames)
  then obtain e where e: "(key, e) \<in> set ?es" and f: "frames e \<noteq> 0"
    using k by blast
  from e obtain q where q: "(key, q) \<in> set (m_map_active s)" and eq: "e = heap s ! q"
    by auto
  with assms(1) have "q = p"
    by blast
  with eq f assms(2) show False
    by simp
qed

text \<open>
  Such a key adds nothing to \<open>ttpf\<close> either: the report is the report of the object
  without the key.
\<close>

lemma ttpf_loop_without:
  assumes "\<forall>(k, e) \<in> set es. k = key \<longrightarrow> frames e = 0"
  shows "ttpf_loop ttpf (filter (\<lambda>(k, e). k \<noteq> key) es) = ttpf_loop ttpf es"
  using assms by (induction ttpf es rule: ttpf_loop.induct) auto

lemma print_rows_without:
  assumes "\<forall>(k, e) \<in> set es. k = key \<longrightarrow> frames e = 0"
  shows "print_rows tps ttpf (filter (\<lambda>(k, e). k \<noteq> key) es) = print_rows tps ttpf es"
  using assms
  by (induction tps ttpf es rule: print_rows.induct) (auto split: sum.splits)

lemma PrintStats_without_unused:
  assumes "\<forall>q. (key, q) \<in> set (m_map_active s) \<longrightarrow> q = p"
      and "frames (heap s ! p) = 0"
  shows "PrintStats tps (s\<lparr>m_map_active := filter (\<lambda>(k, q). k \<noteq> key) (m_map_active s)\<rparr>)
           = PrintStats tps s"
proof -
  let ?f = "\<lambda>(k, q). (k, heap s ! q)"
  let ?es = "map ?f (m_map_active s)"
  have flt: "map ?f (filter (\<lambda>(k, q). k \<noteq> key) (m_map_active s))
               = filter (\<lambda>(k, e). k \<noteq> key) ?es"
    by (induction "m_map_active s") (auto simp: filter_map comp_def case_prod_beta)
  have unused: "\<forall>(k, e) \<in> set ?es. k = key \<longrightarrow> frames e = 0"
    using assms by auto
  show ?thesis
    by (simp add: PrintStats_def Let_def flt
          ttpf_loop_without [OF unused] print_rows_without [OF unused])
qed

text \<open>
  C10, as the code has it. A key that is not in the map is looked up, which makes a
  fresh entry with \<open>frame = (uint64)-1\<close>; the first \<open>UpdateStats\<close> for it has
  \<open>frame = (uint64)-1\<close> too. The test of line 87 fails, so \<open>frames\<close> stays 0 while
  the ticks and counts are added, and the report of that object has no line for the
  key: it is the report of the object without the key. That lasts through any lookups and \<open>UpdateStats\<close> calls that follow, as long as
  every call routed to the entry has \<open>frame = (uint64)-1\<close>: \<open>frames\<close> is still 0 and
  the report still has no line for the key, for every tick frequency. It ends with the
  first call routed to the entry with another frame, which makes \<open>frames = 1\<close>.
\<close>

theorem first_frame_equal_to_sentinel:
  assumes "map_of (m_map_active s) key = None" and "gdf key (derived s) = (Inr v, d)"
      and "s1 = snd (operator_index gdf key s)"
      and "s2 = snd (UpdateStats debug (- 1) tk ac tot pr s1)"
      and "a = heap s2 ! length (heap s)"
  shows "map_of (m_map_active s2) key = Some (length (heap s))
         \<and> frames a = 0 \<and> frame a = - 1
         \<and> ticks a = tk \<and> actual a = scast ac \<and> total_px a = scast tot \<and> prims a = scast pr
         \<and> key \<notin> row_key ` set (fst (PrintStats tps s2))
         \<and> PrintStats tps s2
             = PrintStats tps (s2\<lparr>m_map_active := filter (\<lambda>(k, q). k \<noteq> key) (m_map_active s2)\<rparr>)
         \<and> (\<forall>ops s3. routed_frames_all gdf debug key (- 1) ops s2
                      \<and> run_operations gdf debug ops s2 = Inr s3 \<longrightarrow>
                map_of (m_map_active s3) key = Some (length (heap s))
                \<and> frames (heap s3 ! length (heap s)) = 0
                \<and> key \<notin> row_key ` set (fst (PrintStats tps s3))
                \<and> PrintStats tps s3
                    = PrintStats tps
                        (s3\<lparr>m_map_active := filter (\<lambda>(k, q). k \<noteq> key) (m_map_active s3)\<rparr>)
                \<and> (\<forall>fr tk' ac' tot' pr'. routed_to s3 key \<and> fr \<noteq> - 1 \<longrightarrow>
                      frames (heap (snd (UpdateStats debug fr tk' ac' tot' pr' s3))
                                ! length (heap s)) = 1))"
proof -
  let ?n = "length (heap s)"
  have s1: "s1 = s\<lparr>heap := heap s @ [new_ActivePtr\<lparr>fn := v\<rparr>],
                    m_map_active := m_map_active s @ [(key, ?n)],
                    m_active := Some ?n,
                    derived := d\<rparr>"
    using assms(1,2,3) by (simp add: operator_index_new)
  let ?a = "\<lparr>frame = - 1, frames = 0, prims = scast pr, ticks = tk, actual = scast ac,
             total_px = scast tot, fn = v\<rparr>"
  have s2: "s2 = s1\<lparr>heap := heap s @ [?a]\<rparr>"
    by (simp add: assms(4) s1 UpdateStats_def UpdateStats_entry_def new_ActivePtr_def)
  have a: "a = ?a"
    by (simp add: assms(5) s2)
  have m: "map_of (m_map_active s2) key = Some ?n"
    using assms(1) by (simp add: s2 s1 map_add_def)
  have "key \<notin> fst ` set (m_map_active s)"
    using assms(1) by (simp add: map_of_eq_None_iff)
  then have one: "\<forall>q. (key, q) \<in> set (m_map_active s2) \<longrightarrow> q = ?n"
    by (force simp: s2 s1)
  have len: "?n < length (heap s2)"
    by (simp add: s2)
  have fr0: "frame (heap s2 ! ?n) = - 1" and fs0: "frames (heap s2 ! ?n) = 0"
    by (simp_all add: s2)
  have now: "key \<notin> row_key ` set (fst (PrintStats tps s2))"
    using one fs0 by (rule PrintStats_omits_unused)
  have now': "PrintStats tps s2
             = PrintStats tps (s2\<lparr>m_map_active := filter (\<lambda>(k, q). k \<noteq> key) (m_map_active s2)\<rparr>)"
    using PrintStats_without_unused [OF one fs0] by simp
  have later: "map_of (m_map_active s3) key = Some ?n
                \<and> frames (heap s3 ! ?n) = 0
                \<and> key \<notin> row_key ` set (fst (PrintStats tps s3))
                \<and> PrintStats tps s3
                    = PrintStats tps
                        (s3\<lparr>m_map_active := filter (\<lambda>(k, q). k \<noteq> key) (m_map_active s3)\<rparr>)
                \<and> (\<forall>fr tk' ac' tot' pr'. routed_to s3 key \<and> fr \<noteq> - 1 \<longrightarrow>
                      frames (heap (snd (UpdateStats debug fr tk' ac' tot' pr' s3)) ! ?n) = 1)"
    if ok: "routed_frames_all gdf debug key (- 1) ops s2"
      and run: "run_operations gdf debug ops s2 = Inr s3" for ops s3
  proof -
    from run_operations_keeps_frames [OF m one len fr0 ok run]
    have m3: "map_of (m_map_active s3) key = Some ?n"
      and one3: "\<forall>q. (key, q) \<in> set (m_map_active s3) \<longrightarrow> q = ?n"
      and len3: "?n < length (heap s3)"
      and fr3: "frame (heap s3 ! ?n) = - 1"
      and fs3: "frames (heap s3 ! ?n) = 0"
      using fs0 by simp_all
    have rep: "key \<notin> row_key ` set (fst (PrintStats tps s3))"
      using one3 fs3 by (rule PrintStats_omits_unused)
    have "frames (heap (snd (UpdateStats debug fr tk' ac' tot' pr' s3)) ! ?n) = 1"
      if "routed_to s3 key \<and> fr \<noteq> - 1" for fr tk' ac' tot' pr'
      using one_entry_UpdateStats [OF m3 one3 len3 refl, of debug fr tk' ac' tot' pr'] that fr3 fs3
      by (auto simp: UpdateStats_entry_def Let_def)
    moreover have "PrintStats tps s3
                    = PrintStats tps
                        (s3\<lparr>m_map_active := filter (\<lambda>(k, q). k \<noteq> key) (m_map_active s3)\<rparr>)"
      using PrintStats_without_unused [OF one3 fs3] by simp
    ultimately show ?thesis
      using m3 fs3 rep by blast
  qed
  from m now now' later show ?thesis
    by (simp add: a) blast
qed

text \<open>
  Key 1 on the new object, then \<open>UpdateStats((uint64)-1, 1000, 10, 12, 10)\<close>: 1000
  ticks are recorded in no frame, and the report is empty. Then another call with
  that frame, a lookup of key 2 with a call in frame 5, and a lookup of key 1 with a
  call with frame \<open>(uint64)-1\<close>: the report has a line for key 2 and none for key 1.
\<close>

theorem first_frame_equal_to_sentinel_witness:
  "fst (Lookup (stub_env True 16) 1 stub_map) = Inr 4096
   \<and> UpdateStats True (- 1) 1000 10 12 10 (snd (Lookup (stub_env True 16) 1 stub_map))
       = (Inr (), (snd (Lookup (stub_env True 16) 1 stub_map))
                    \<lparr>heap := [\<lparr>frame = - 1, frames = 0, prims = 10, ticks = 1000, actual = 10,
                               total_px = 12, fn = 4096\<rparr>]\<rparr>)
   \<and> 1 \<notin> row_key ` set (fst (PrintStats 1000000
             (snd (UpdateStats True (- 1) 1000 10 12 10 (snd (Lookup (stub_env True 16) 1 stub_map))))))
   \<and> routed_frames_all (GetDefaultFunction (stub_env True 16)) True 1 (- 1)
        [Op_UpdateStats (- 1, 200, 2, 2, 2), Op_Lookup 2, Op_UpdateStats (5, 100, 1, 1, 1),
         Op_Lookup 1, Op_UpdateStats (- 1, 50, 1, 1, 1)]
        (snd (UpdateStats True (- 1) 1000 10 12 10 (snd (Lookup (stub_env True 16) 1 stub_map))))
   \<and> (\<exists>s3. run_operations (GetDefaultFunction (stub_env True 16)) True
               [Op_UpdateStats (- 1, 200, 2, 2, 2), Op_Lookup 2, Op_UpdateStats (5, 100, 1, 1, 1),
                Op_Lookup 1, Op_UpdateStats (- 1, 50, 1, 1, 1)]
               (snd (UpdateStats True (- 1) 1000 10 12 10 (snd (Lookup (stub_env True 16) 1 stub_map))))
             = Inr s3
           \<and> ticks (heap s3 ! 0) = 1250
           \<and> frames (heap s3 ! 0) = 0
           \<and> 1 \<notin> row_key ` set (fst (PrintStats 1000000 s3))
           \<and> 2 \<in> row_key ` set (fst (PrintStats 1000000 s3)))"
proof -
  let ?gdf = "GetDefaultFunction (stub_env True 16)"
  let ?ops = "[Op_UpdateStats (- 1, 200, 2, 2, 2), Op_Lookup 2, Op_UpdateStats (5, 100, 1, 1, 1),
               Op_Lookup 1, Op_UpdateStats (- 1, 50, 1, 1, 1)] :: uint64 operation list"
  define s1 where "s1 = snd (Lookup (stub_env True 16) 1 stub_map)"
  define s2 where "s2 = snd (UpdateStats True (- 1) 1000 10 12 10 s1)"
  have absent: "map_of (m_map_active stub_map) (1 :: uint64) = None"
    by (simp add: stub_defs)
  have gen: "?gdf 1 (derived stub_map) = (Inr 4096, snd (?gdf 1 (derived stub_map)))"
    by (simp add: stub_defs)
  have s1': "s1 = snd (operator_index ?gdf 1 stub_map)"
    by (simp add: s1_def Lookup_def)
  have r: "fst (Lookup (stub_env True 16) 1 stub_map) = Inr 4096"
    by (simp add: stub_defs)
  have u: "UpdateStats True (- 1) 1000 10 12 10 s1
       = (Inr (), s1\<lparr>heap := [\<lparr>frame = - 1, frames = 0, prims = 10, ticks = 1000, actual = 10,
                               total_px = 12, fn = 4096\<rparr>]\<rparr>)"
    by (simp add: s1_def stub_defs)
  let ?e1 = "\<lparr>frame = - 1, frames = 0, prims = 13, ticks = 1250, actual = 13,
              total_px = 15, fn = 4096 :: nat\<rparr>"
  let ?e2 = "\<lparr>frame = 5, frames = 1, prims = 1, ticks = 100, actual = 1,
              total_px = 1, fn = 4112 :: nat\<rparr>"
  define s3 where "s3 = \<lparr>heap = [?e1, ?e2], m_map_active = [(1 :: uint64, 0), (2, 1)],
                          m_active = Some 0,
                          derived = snd (?gdf 2 (derived s2))\<rparr>"
  have ok: "routed_frames_all ?gdf True 1 (- 1) ?ops s2"
    by (simp add: s2_def s1_def stub_defs routed_to_def)
  have run: "run_operations ?gdf True ?ops s2 = Inr s3"
    by (simp add: s3_def s2_def s1_def stub_defs)
  note t = first_frame_equal_to_sentinel
            [of stub_map 1 ?gdf 4096 "snd (?gdf 1 (derived stub_map))"
                s1 s2 True 1000 10 12 10 "heap s2 ! length (heap stub_map)" 1000000,
             OF absent gen s1' s2_def refl]
  have now: "1 \<notin> row_key ` set (fst (PrintStats 1000000 s2))"
    using t by blast
  have "frames (heap s3 ! length (heap stub_map)) = 0
        \<and> 1 \<notin> row_key ` set (fst (PrintStats 1000000 s3))"
    using t ok run by blast
  then have later: "frames (heap s3 ! 0) = 0 \<and> 1 \<notin> row_key ` set (fst (PrintStats 1000000 s3))"
    by (simp add: stub_defs)
  have tk: "ticks (heap s3 ! 0) = 1250"
    by (simp add: s3_def)
  have two: "2 \<in> row_key ` set (fst (PrintStats 1000000 s3))"
    by (simp add: s3_def PrintStats_def stats_row_of_def)
  have "\<exists>s3. run_operations ?gdf True ?ops s2 = Inr s3
           \<and> ticks (heap s3 ! 0) = 1250
           \<and> frames (heap s3 ! 0) = 0
           \<and> 1 \<notin> row_key ` set (fst (PrintStats 1000000 s3))
           \<and> 2 \<in> row_key ` set (fst (PrintStats 1000000 s3))"
    using run tk later two by blast
  with r u now ok show ?thesis
    unfolding s2_def s1_def by blast
qed

text \<open>
  The claim C10 as it is written fails: the entry is not left out of every later
  report. After the first call with frame \<open>(uint64)-1\<close>, a call with frame 1 makes
  \<open>frames = 1\<close>, and the report of that object has the line of key 1 (of its two
  calls, in two different frames, one frame is counted).
\<close>

theorem reported_after_another_frame_counterexample:
  "fst (Lookup (stub_env True 16) 1 stub_map) = Inr 4096
   \<and> UpdateStats_calls True [(- 1, 1000, 10, 12, 10), (1, 500, 5, 5, 5)]
        (snd (Lookup (stub_env True 16) 1 stub_map))
       = (Inr (), (snd (Lookup (stub_env True 16) 1 stub_map))
                    \<lparr>heap := [\<lparr>frame = 1, frames = 1, prims = 15, ticks = 1500, actual = 15,
                               total_px = 17, fn = 4096\<rparr>]\<rparr>)
   \<and> PrintStats 1000000
        (snd (UpdateStats_calls True [(- 1, 1000, 10, 12, 10), (1, 500, 5, 5, 5)]
                (snd (Lookup (stub_env True 16) 1 stub_map))))
       = ([\<lparr>row_key = 1, row_frames = 1, row_prims_per_frame = 15, row_pct_x100 = 10000,
            row_us_per_frame = 1500, row_ns_per_px = 100000, row_px_per_frame = 15,
            row_px_per_prim = 1, row_overdraw_x100 = 1176\<rparr>], None)"
proof -
  define s1 where "s1 = snd (Lookup (stub_env True 16) 1 stub_map)"
  define s3 where "s3 = snd (UpdateStats_calls True [(- 1, 1000, 10, 12, 10), (1, 500, 5, 5, 5)] s1)"
  have r: "fst (Lookup (stub_env True 16) 1 stub_map) = Inr 4096"
    by (simp add: stub_defs)
  have run: "UpdateStats_calls True [(- 1, 1000, 10, 12, 10), (1, 500, 5, 5, 5)] s1
       = (Inr (), s1\<lparr>heap := [\<lparr>frame = 1, frames = 1, prims = 15, ticks = 1500, actual = 15,
                               total_px = 17, fn = 4096\<rparr>]\<rparr>)"
    by (simp add: s1_def stub_defs)
  have s3h: "heap s3 = [\<lparr>frame = 1, frames = 1, prims = 15, ticks = 1500, actual = 15,
                          total_px = 17, fn = 4096\<rparr>]"
    by (simp only: s3_def run snd_conv) simp
  have s3m: "m_map_active s3 = [(1, 0)]"
    by (simp only: s3_def run snd_conv) (simp add: s1_def stub_defs)
  have rep: "PrintStats 1000000 s3
       = ([\<lparr>row_key = 1, row_frames = 1, row_prims_per_frame = 15, row_pct_x100 = 10000,
            row_us_per_frame = 1500, row_ns_per_px = 100000, row_px_per_frame = 15,
            row_px_per_prim = 1, row_overdraw_x100 = 1176\<rparr>], None)"
    by (simp add: PrintStats_def s3h s3m stats_row_of_def)
  from r run rep show ?thesis
    unfolding s3_def s1_def by (intro conjI)
qed

end
